theory Spec2Isabelle
  imports Complex_Main
begin

section \<open>Python values and exceptions\<close>

text \<open>
  The exceptions raised by \<^verbatim>\<open>rvidmaker/uploaders/youtube.py\<close> and
  \<^verbatim>\<open>rvidmaker/readers/reddit.py\<close>. Each constructor is the Python class of the same
  name; the string is the message passed to the constructor. \<open>ExternalError\<close> stands for
  any exception that an external library (praw, requests, googleapiclient) lets escape.
\<close>

datatype pyexc =
    TypeError string
  | ValueError string
  | AuthException string
  | UploadException string
  | RedditApiException string
  | RedditVideoNotFound
  | NotImplementedError
  | ExternalError string

text \<open>
  The dynamically typed values that reach \<^verbatim>\<open>upload\<close>. A Python \<^verbatim>\<open>set\<close> is kept as the
  list of its elements in iteration order. \<open>PyExc\<close> is an exception object handled as an
  ordinary value (returned, not raised).
\<close>

datatype pyval =
    PyNone
  | PyBool bool
  | PyInt int
  | PyFloat real
  | PyStr string
  | PySet "pyval list"
  | PyList "pyval list"
  | PyExc pyexc

text \<open>
  The outcome of a call: \<open>Inl e\<close> when the call raises \<open>e\<close>, \<open>Inr v\<close> when it returns
  \<open>v\<close>.
\<close>

type_synonym 'a outcome = "pyexc + 'a"

section \<open>Decimal formatting of integers\<close>

text \<open>What \<^verbatim>\<open>"{}".format(n)\<close> prints for an \<^verbatim>\<open>int\<close>.\<close>

definition digit_char :: "nat \<Rightarrow> char" where
  "digit_char d = ''0123456789'' ! (d mod 10)"

fun str_nat :: "nat \<Rightarrow> string" where
  "str_nat n = (if n < 10 then [digit_char n] else str_nat (n div 10) @ [digit_char n])"

declare str_nat.simps [simp del]

definition str_int :: "int \<Rightarrow> string" where
  "str_int i = (if i < 0 then CHR ''-'' # str_nat (nat (- i)) else str_nat (nat i))"

section \<open>The YouTube uploader (\<^verbatim>\<open>rvidmaker/uploaders/youtube.py\<close>)\<close>

subsection \<open>Module constants\<close>

definition VALID_PRIVACY_STATUSES :: "pyval list" where
  "VALID_PRIVACY_STATUSES = [PyStr ''public'', PyStr ''private'', PyStr ''unlisted'']"

definition MAX_RETRIES :: int where
  "MAX_RETRIES = 10"

definition RETRIABLE_STATUS_CODES :: "int list" where
  "RETRIABLE_STATUS_CODES = [500, 502, 503, 504]"

definition OAUTH_FILE :: string where
  "OAUTH_FILE = ''rvidmaker-youtube-oauth2.json''"

subsection \<open>The environment of the uploader\<close>

text \<open>
  A stored OAuth credential; the uploader reads only its \<^verbatim>\<open>invalid\<close> attribute.
\<close>

record credentials =
  invalid :: bool

text \<open>
  A response of the upload service is a JSON object, kept as an association list.
\<close>

type_synonym response = "(string \<times> pyval) list"

text \<open>
  What one call of \<^verbatim>\<open>insert_request.next_chunk()\<close> does:
  \<^item> \<open>Chunk r\<close>: it returns \<^verbatim>\<open>(status, r)\<close>, where \<open>r = None\<close> while the upload is in progress;
  \<^item> \<open>HttpError st c\<close>: it raises \<^verbatim>\<open>apiclient.errors.HttpError\<close> with \<^verbatim>\<open>resp.status = st\<close>,
    \<open>c\<close> being what \<^verbatim>\<open>format\<close> prints for \<^verbatim>\<open>e.content\<close>;
  \<^item> \<open>TransportError s\<close>: it raises \<^verbatim>\<open>httplib2.HttpLib2Error\<close> or \<^verbatim>\<open>IOError\<close>
    (the tuple \<^verbatim>\<open>_RETRIABLE_EXCEPTIONS\<close>), printed as \<open>s\<close>;
  \<^item> \<open>OtherError s\<close>: it raises any other exception, printed as \<open>s\<close>.
\<close>

datatype chunk_result =
    Chunk "response option"
  | HttpError int string
  | TransportError string
  | OtherError string

text \<open>The body of the insert request built by \<^verbatim>\<open>upload\<close>.\<close>

record video_body =
  snippet_title :: string
  snippet_description :: string
  snippet_tags :: "pyval list"
  snippet_categoryId :: int
  status_privacyStatus :: pyval

text \<open>
  The observable effects of the uploader, in the order in which they happen.
  \<open>ApiBuild\<close>, \<open>ApiInsert\<close> and \<open>ApiNextChunk\<close> are the calls into the API client
  (\<^verbatim>\<open>build\<close>, \<^verbatim>\<open>videos().insert\<close>, \<^verbatim>\<open>next_chunk\<close>); the others are local.
\<close>

datatype uevent =
    FsIsFile string
  | FsExists string
  | StorageGet string
  | ApiBuild
  | ApiInsert string video_body
  | ApiNextChunk
  | Print string
  | PrintSleeping real
  | Sleep real

fun is_network :: "uevent \<Rightarrow> bool" where
  "is_network ApiBuild = True"
| "is_network (ApiInsert p b) = True"
| "is_network ApiNextChunk = True"
| "is_network e = False"

fun is_credential_check :: "uevent \<Rightarrow> bool" where
  "is_credential_check (FsExists f) = True"
| "is_credential_check (StorageGet f) = True"
| "is_credential_check e = False"

text \<open>
  Everything outside the module that the uploader consults:
  \<^item> \<open>isfile\<close>, \<open>path_exists\<close>: \<^verbatim>\<open>os.path.isfile\<close>, \<^verbatim>\<open>os.path.exists\<close>;
  \<^item> \<open>storage_get f\<close>: what \<^verbatim>\<open>Storage(f).get()\<close> returns;
  \<^item> \<open>build_fault\<close>, \<open>insert_fault\<close>: the exception that building the API client
    (\<^verbatim>\<open>build\<close>, \<^verbatim>\<open>creds.authorize\<close>), respectively the insert request
    (\<^verbatim>\<open>videos().insert\<close>, \<^verbatim>\<open>MediaFileUpload\<close>), raises, if any;
  \<^item> \<open>chunks\<close>: what the successive calls of \<^verbatim>\<open>next_chunk\<close> do;
  \<^item> \<open>random k\<close>: the value of the \<open>k\<close>-th call of \<^verbatim>\<open>random.random()\<close>, counted from 0;
  \<^item> \<open>fmt_response\<close>: what \<^verbatim>\<open>format\<close> prints for a response.
\<close>

record uenv =
  isfile :: "string \<Rightarrow> bool"
  path_exists :: "string \<Rightarrow> bool"
  storage_get :: "string \<Rightarrow> credentials option"
  build_fault :: "pyexc option"
  insert_fault :: "pyexc option"
  chunks :: "chunk_result list"
  random :: "nat \<Rightarrow> real"
  fmt_response :: "response \<Rightarrow> string"

subsection \<open>\<^verbatim>\<open>_get_creds\<close>\<close>

definition get_creds :: "uenv \<Rightarrow> string \<Rightarrow> credentials option \<times> uevent list" where
  "get_creds env oauth_file =
     (if path_exists env oauth_file then
        (case storage_get env oauth_file of
           None \<Rightarrow> (None, [FsExists oauth_file, StorageGet oauth_file])
         | Some creds \<Rightarrow>
             if \<not> invalid creds then (Some creds, [FsExists oauth_file, StorageGet oauth_file])
             else (None, [FsExists oauth_file, StorageGet oauth_file]))
      else (None, [FsExists oauth_file]))"

definition is_authed :: "uenv \<Rightarrow> bool" where
  "is_authed env = (fst (get_creds env OAUTH_FILE) \<noteq> None)"

subsection \<open>\<^verbatim>\<open>_resumable_upload\<close>\<close>

text \<open>
  The local variables of the loop that survive an iteration, and the effects so far.
  \<^verbatim>\<open>response\<close> is not among them: the loop is left as soon as it is not \<^verbatim>\<open>None\<close>.
\<close>

record loop_state =
  error :: "string option"
  retry :: int
  draws :: nat
  trace :: "uevent list"

definition log_event :: "uevent \<Rightarrow> loop_state \<Rightarrow> loop_state" where
  "log_event e st = st\<lparr>trace := trace st @ [e]\<rparr>"

text \<open>
  The loop \<^verbatim>\<open>while response is None\<close>, by recursion on the calls of \<^verbatim>\<open>next_chunk\<close> that
  the environment still answers. The result is \<open>None\<close> when these are used up while the
  loop is still running: the loop itself has no bound on the number of in-progress chunks.
  \<open>after_try\<close> is the part of the body below the \<^verbatim>\<open>try\<close> statement; it yields either the
  exception of the exhausted retries or the state in which the loop goes round again.
\<close>

definition after_try :: "(nat \<Rightarrow> real) \<Rightarrow> loop_state \<Rightarrow> pyexc \<times> loop_state + loop_state" where
  "after_try rnd st =
     (case error st of
        None \<Rightarrow> Inr st
      | Some err \<Rightarrow>
          (let st1 = log_event (Print err) st;
               st2 = st1\<lparr>retry := retry st1 + 1\<rparr>
           in if retry st2 > MAX_RETRIES
              then Inl (UploadException ''No longer attempting to retry'', st2)
              else
                (let max_sleep = (2::real) ^ nat (retry st2);
                     sleep_seconds = rnd (draws st2) * max_sleep;
                     st3 = st2\<lparr>draws := draws st2 + 1\<rparr>;
                     st4 = log_event (PrintSleeping sleep_seconds) st3
                 in Inr (log_event (Sleep sleep_seconds) st4))))"

fun upload_loop ::
  "(nat \<Rightarrow> real) \<Rightarrow> (response \<Rightarrow> string) \<Rightarrow> loop_state \<Rightarrow> chunk_result list
     \<Rightarrow> pyval outcome option \<times> loop_state" where
  "upload_loop rnd fmt st [] = (None, st)"
| "upload_loop rnd fmt st (c # cs) =
     (let st1 = log_event ApiNextChunk st in
      case c of
        Chunk (Some resp) \<Rightarrow>
          (case map_of resp ''id'' of
             Some v \<Rightarrow> (Some (Inr v), st1)
           | None \<Rightarrow>
               (Some (Inl (UploadException
                  (''An unexpected error occurred: '' @
                   ''The upload failed with an unexpected response: '' @ fmt resp))), st1))
      | Chunk None \<Rightarrow>
          (case after_try rnd st1 of
             Inl (e, st2) \<Rightarrow> (Some (Inl e), st2)
           | Inr st2 \<Rightarrow> upload_loop rnd fmt st2 cs)
      | HttpError status content \<Rightarrow>
          if status \<in> set RETRIABLE_STATUS_CODES then
            (case after_try rnd (st1\<lparr>error :=
                      Some (''A retriable HTTP error '' @ str_int status @
                            '' occurred: '' @ content)\<rparr>) of
               Inl (e, st2) \<Rightarrow> (Some (Inl e), st2)
             | Inr st2 \<Rightarrow> upload_loop rnd fmt st2 cs)
          else
            (Some (Inl (UploadException
               (''An HTTP error '' @ str_int status @ '' occurred: '' @ content))), st1)
      | TransportError s \<Rightarrow>
          (case after_try rnd (st1\<lparr>error := Some (''A retriable error occurred: '' @ s)\<rparr>) of
             Inl (e, st2) \<Rightarrow> (Some (Inl e), st2)
           | Inr st2 \<Rightarrow> upload_loop rnd fmt st2 cs)
      | OtherError s \<Rightarrow>
          (Some (Inl (UploadException (''An unexpected error occurred: '' @ s))), st1))"

text \<open>
  \<^verbatim>\<open>_resumable_upload\<close> enters the loop with \<^verbatim>\<open>error = None\<close> and \<^verbatim>\<open>retry = 0\<close>; the
  result pairs the outcome with the effects of the loop.
\<close>

definition initial_loop_state :: loop_state where
  "initial_loop_state = \<lparr>error = None, retry = 0, draws = 0, trace = []\<rparr>"

definition resumable_upload :: "uenv \<Rightarrow> pyval outcome option \<times> uevent list" where
  "resumable_upload env =
     (case upload_loop (random env) (fmt_response env) initial_loop_state (chunks env) of
        (r, st) \<Rightarrow> (r, trace st))"

subsection \<open>\<^verbatim>\<open>upload\<close>\<close>

text \<open>
  The part of \<^verbatim>\<open>upload\<close> below the type checks, for arguments of the checked types.
\<close>

definition upload_typed ::
  "uenv \<Rightarrow> string \<Rightarrow> string \<Rightarrow> string \<Rightarrow> pyval list \<Rightarrow> int \<Rightarrow> pyval
     \<Rightarrow> pyval outcome option \<times> uevent list" where
  "upload_typed env path title desc tags category privacy_status =
     (if \<not> isfile env path then
        (Some (Inl (ValueError (''\"'' @ path @ ''\" is not a file''))), [FsIsFile path])
      else if category \<le> 0 then
        (Some (Inl (ValueError ''category must be greater than 0'')), [FsIsFile path])
      else if privacy_status \<notin> set VALID_PRIVACY_STATUSES then
        (Some (Inl (ValueError
           ''privacy_status must be either \"public\", \"private\", or \"unlisted\"'')),
         [FsIsFile path])
      else
        (case get_creds env OAUTH_FILE of
           (None, tr) \<Rightarrow>
             (Some (Inr (PyExc (AuthException ''Application has not been authenticated yet''))),
              FsIsFile path # tr)
         | (Some creds, tr) \<Rightarrow>
             (case build_fault env of
                Some e \<Rightarrow> (Some (Inl e), FsIsFile path # tr @ [ApiBuild])
              | None \<Rightarrow>
                  (let body = \<lparr>snippet_title = title, snippet_description = desc,
                               snippet_tags = tags, snippet_categoryId = category,
                               status_privacyStatus = privacy_status\<rparr>;
                       tr1 = FsIsFile path # tr @ [ApiBuild, ApiInsert path body]
                   in case insert_fault env of
                        Some e \<Rightarrow> (Some (Inl e), tr1)
                      | None \<Rightarrow>
                          (case resumable_upload env of (r, tr2) \<Rightarrow> (r, tr1 @ tr2))))))"

text \<open>
  \<^verbatim>\<open>upload\<close>: the five checks \<^verbatim>\<open>type(x) != T\<close> in the order of the source, then the rest.
  The result pairs the outcome with the effects of the call.
\<close>

definition upload ::
  "uenv \<Rightarrow> pyval \<Rightarrow> pyval \<Rightarrow> pyval \<Rightarrow> pyval \<Rightarrow> pyval \<Rightarrow> pyval
     \<Rightarrow> pyval outcome option \<times> uevent list" where
  "upload env path title desc tags category privacy_status =
     (case path of
        PyStr p \<Rightarrow>
          (case title of
             PyStr t \<Rightarrow>
               (case desc of
                  PyStr d \<Rightarrow>
                    (case tags of
                       PySet tg \<Rightarrow>
                         (case category of
                            PyInt c \<Rightarrow> upload_typed env p t d tg c privacy_status
                          | _ \<Rightarrow> (Some (Inl (TypeError ''category must be of type int'')), []))
                     | _ \<Rightarrow> (Some (Inl (TypeError ''tags must be of type set'')), []))
                | _ \<Rightarrow> (Some (Inl (TypeError ''desc must be of type str'')), []))
           | _ \<Rightarrow> (Some (Inl (TypeError ''title must be of type str'')), []))
      | _ \<Rightarrow> (Some (Inl (TypeError ''path must be of type str'')), []))"

subsection \<open>Vocabulary for the statements about the uploader\<close>

text \<open>The tests \<^verbatim>\<open>type(x) == str\<close>, \<^verbatim>\<open>type(x) == set\<close> and \<^verbatim>\<open>type(x) == int\<close>.\<close>

fun is_str :: "pyval \<Rightarrow> bool" where
  "is_str (PyStr s) = True"
| "is_str v = False"

fun is_set :: "pyval \<Rightarrow> bool" where
  "is_set (PySet s) = True"
| "is_set v = False"

fun is_int :: "pyval \<Rightarrow> bool" where
  "is_int (PyInt i) = True"
| "is_int v = False"

text \<open>
  The faults after which the loop sets \<^verbatim>\<open>error\<close>: an \<^verbatim>\<open>HttpError\<close> whose status is in
  \<^verbatim>\<open>_RETRIABLE_STATUS_CODES\<close>, and the exceptions of \<^verbatim>\<open>_RETRIABLE_EXCEPTIONS\<close>.
\<close>

fun retriable_fault :: "chunk_result \<Rightarrow> bool" where
  "retriable_fault (HttpError status content) = (status \<in> set RETRIABLE_STATUS_CODES)"
| "retriable_fault (TransportError s) = True"
| "retriable_fault c = False"

text \<open>The durations of the calls of \<^verbatim>\<open>time.sleep\<close> in a trace, in order.\<close>

fun sleeps :: "uevent list \<Rightarrow> real list" where
  "sleeps [] = []"
| "sleeps (Sleep s # es) = s # sleeps es"
| "sleeps (e # es) = sleeps es"

text \<open>
  Environments used to run the uploader on concrete inputs: one whose upload service
  answers 503 three times and then accepts the video, one whose connection fails eleven
  times in a row, and one without an OAuth file.
\<close>

definition env_503 :: uenv where
  "env_503 =
     \<lparr>isfile = (\<lambda>p. p = ''video.mp4''),
      path_exists = (\<lambda>f. f = OAUTH_FILE),
      storage_get = (\<lambda>f. Some \<lparr>invalid = False\<rparr>),
      build_fault = None,
      insert_fault = None,
      chunks = [HttpError 503 ''busy'', HttpError 503 ''busy'', HttpError 503 ''busy'',
                Chunk (Some [(''kind'', PyStr ''youtube#video''), (''id'', PyStr ''abc123'')])],
      random = (\<lambda>k. 1 / 2),
      fmt_response = (\<lambda>r. [])\<rparr>"

definition env_outage :: uenv where
  "env_outage =
     env_503\<lparr>chunks := replicate 11 (TransportError ''connection reset'')
                         @ [Chunk (Some [(''id'', PyStr ''abc123'')])]\<rparr>"

definition env_no_creds :: uenv where
  "env_no_creds =
     \<lparr>isfile = (\<lambda>p. p = ''video.mp4''),
      path_exists = (\<lambda>f. False),
      storage_get = (\<lambda>f. None),
      build_fault = None,
      insert_fault = None,
      chunks = [Chunk (Some [(''id'', PyStr ''abc123'')])],
      random = (\<lambda>k. 1 / 2),
      fmt_response = (\<lambda>r. [])\<rparr>"

text \<open>The message that a retriable fault leaves in \<^verbatim>\<open>error\<close>.\<close>

fun fault_message :: "chunk_result \<Rightarrow> string" where
  "fault_message (HttpError status content) =
     ''A retriable HTTP error '' @ str_int status @ '' occurred: '' @ content"
| "fault_message (TransportError s) = ''A retriable error occurred: '' @ s"
| "fault_message c = []"

section \<open>The Reddit reader (\<^verbatim>\<open>rvidmaker/readers/reddit.py\<close>)\<close>

subsection \<open>Module constants\<close>

definition VALID_TIME_FILTERS :: "string list" where
  "VALID_TIME_FILTERS = [''all'', ''day'', ''hour'', ''month'', ''week'', ''year'']"

subsection \<open>What PRAW hands to the reader\<close>

text \<open>
  An element of a comment forest: a comment with its author, body, score and replies, or
  a node that is not a \<^verbatim>\<open>praw.models.reddit.comment.Comment\<close> (a "load more" placeholder).
\<close>

datatype praw_node =
    Comment "string option" string int "praw_node list"
  | MoreComments

fun is_comment :: "praw_node \<Rightarrow> bool" where
  "is_comment (Comment a b s rs) = True"
| "is_comment MoreComments = False"

fun pc_author :: "praw_node \<Rightarrow> string option" where
  "pc_author (Comment a b s rs) = a"
| "pc_author MoreComments = None"

fun pc_body :: "praw_node \<Rightarrow> string" where
  "pc_body (Comment a b s rs) = b"
| "pc_body MoreComments = []"

fun pc_score :: "praw_node \<Rightarrow> int" where
  "pc_score (Comment a b s rs) = s"
| "pc_score MoreComments = 0"

fun pc_replies :: "praw_node \<Rightarrow> praw_node list" where
  "pc_replies (Comment a b s rs) = rs"
| "pc_replies MoreComments = []"

text \<open>
  The media descriptor of a submission: the entry \<^verbatim>\<open>reddit_video\<close> when the dictionary
  has that key, and the entry \<^verbatim>\<open>type\<close> when it has that one. The fields of a
  \<^verbatim>\<open>reddit_video\<close> entry are those that Reddit always sends.
\<close>

record reddit_video =
  is_gif :: bool
  duration :: int
  fallback_url :: string

record media =
  media_reddit_video :: "reddit_video option"
  media_type :: "string option"

record submission =
  s_title :: string
  s_author_name :: "string option"
  s_selftext :: string
  s_category :: "string option"
  s_id :: string
  s_url :: string
  s_score :: int
  s_over_18 :: bool
  s_created_utc :: real
  s_media :: "media option"
  s_comments :: "praw_node list"

subsection \<open>\<^verbatim>\<open>RedditComment\<close>\<close>

text \<open>
  A comment with the chain of children below it, as a value. \<^verbatim>\<open>_expand_comment\<close> builds
  each chain from objects it has just created and shares with nobody, so the value is all
  a caller can observe of it. (The aliasing of the \<^verbatim>\<open>child\<close> property is modelled on a
  store of objects further down.)
\<close>

datatype reddit_comment =
  RedditComment (rc_author: "string option") (rc_text: string) (rc_score: int)
    (rc_child: "reddit_comment option")

definition from_praw :: "praw_node \<Rightarrow> reddit_comment" where
  "from_praw praw_comment =
     RedditComment (pc_author praw_comment) (pc_body praw_comment) (pc_score praw_comment) None"

text \<open>The setter of \<^verbatim>\<open>child\<close>.\<close>

fun set_rc_child :: "reddit_comment \<Rightarrow> reddit_comment option \<Rightarrow> reddit_comment" where
  "set_rc_child (RedditComment a t s c) child = RedditComment a t s child"

subsection \<open>\<^verbatim>\<open>RedditArticle\<close>\<close>

record article =
  art_article :: submission
  art_title :: string
  art_author :: "string option"
  art_text :: string
  art_category :: "string option"
  art_id :: string
  art_url :: string
  art_score :: int
  art_nsfw :: bool
  art_time_created :: real
  art_media :: "media option"

text \<open>The constructor \<^verbatim>\<open>RedditArticle.__init__\<close>.\<close>

definition RedditArticle :: "submission \<Rightarrow> article" where
  "RedditArticle praw_article =
     \<lparr>art_article = praw_article,
      art_title = s_title praw_article,
      art_author = s_author_name praw_article,
      art_text = s_selftext praw_article,
      art_category = s_category praw_article,
      art_id = s_id praw_article,
      art_url = s_url praw_article,
      art_score = s_score praw_article,
      art_nsfw = s_over_18 praw_article,
      art_time_created = s_created_utc praw_article,
      art_media = s_media praw_article\<rparr>"

text \<open>
  The property \<^verbatim>\<open>age\<close>, for the value \<open>curtime\<close> that \<^verbatim>\<open>datetime.now().timestamp()\<close>
  has when the property is read.
\<close>

definition age :: "real \<Rightarrow> article \<Rightarrow> real" where
  "age curtime art = (curtime - art_time_created art) / (60 * 60)"

subsection \<open>\<^verbatim>\<open>_expand_comment\<close> and \<^verbatim>\<open>get_comments\<close>\<close>

text \<open>
  The loop over \<^verbatim>\<open>praw_comment.replies\<close> that finds the highest-scored reply;
  the first argument is the variable \<^verbatim>\<open>best_reply\<close>.
\<close>

fun best_reply_loop :: "praw_node option \<Rightarrow> praw_node list \<Rightarrow> praw_node option" where
  "best_reply_loop best_reply [] = best_reply"
| "best_reply_loop best_reply (reply # rs) =
     (if \<not> is_comment reply then best_reply_loop best_reply rs
      else
        (case best_reply of
           None \<Rightarrow> best_reply_loop (Some reply) rs
         | Some b \<Rightarrow>
             if pc_score reply > pc_score b then best_reply_loop (Some reply) rs
             else best_reply_loop best_reply rs))"

text \<open>
  \<^verbatim>\<open>_expand_comment\<close> returns the comment as the call leaves it. The recursive call works
  on the object \<^verbatim>\<open>child\<close> that has just been stored in \<^verbatim>\<open>comment\<close>, so what it attaches
  to \<^verbatim>\<open>child\<close> is part of the chain of \<^verbatim>\<open>comment\<close>.
\<close>

function expand_comment ::
  "reddit_comment \<Rightarrow> praw_node \<Rightarrow> int \<Rightarrow> real \<Rightarrow> reddit_comment" where
  "expand_comment comment praw_comment max_depth percent_thres =
     (if max_depth \<le> 0 then comment
      else
        (case best_reply_loop None (pc_replies praw_comment) of
           None \<Rightarrow> comment
         | Some best_reply \<Rightarrow>
             if real_of_int (pc_score best_reply) > real_of_int (rc_score comment) * percent_thres
             then set_rc_child comment
                    (Some (expand_comment (from_praw best_reply) best_reply (max_depth - 1)
                             percent_thres))
             else comment))"
  by pat_completeness auto
termination
  by (relation "measure (\<lambda>(comment, praw_comment, max_depth, percent_thres). nat max_depth)")
     auto

declare expand_comment.simps [simp del]

text \<open>
  \<^verbatim>\<open>list.sort(key=lambda x: x.score, reverse=True)\<close>: Python's sort is stable, also
  when reversed, so it is the stable sort by descending score.
\<close>

definition sort_by_score_desc :: "('a \<Rightarrow> int) \<Rightarrow> 'a list \<Rightarrow> 'a list" where
  "sort_by_score_desc score xs = sort_key (\<lambda>x. - score x) xs"

text \<open>The first loop of \<^verbatim>\<open>get_comments\<close>, which sorts after every append.\<close>

fun collect_comments :: "praw_node list \<Rightarrow> praw_node list \<Rightarrow> praw_node list" where
  "collect_comments praw_comments [] = praw_comments"
| "collect_comments praw_comments (comment # cs) =
     (if \<not> is_comment comment then collect_comments praw_comments cs
      else collect_comments (sort_by_score_desc pc_score (praw_comments @ [comment])) cs)"

text \<open>The second loop of \<^verbatim>\<open>get_comments\<close>; the first argument is the list \<^verbatim>\<open>comments\<close>.\<close>

fun select_comments ::
  "reddit_comment list \<Rightarrow> praw_node list \<Rightarrow> int \<Rightarrow> real \<Rightarrow> reddit_comment list" where
  "select_comments comments [] max_depth percent_thres = comments"
| "select_comments comments (praw_comment # ps) max_depth percent_thres =
     (let comment = from_praw praw_comment in
      if rc_author comment = None \<or> rc_text comment = ''[deleted]''
      then select_comments comments ps max_depth percent_thres
      else select_comments
             (comments @ [expand_comment comment praw_comment max_depth percent_thres])
             ps max_depth percent_thres)"

definition get_comments :: "article \<Rightarrow> int \<Rightarrow> int \<Rightarrow> real \<Rightarrow> reddit_comment list" where
  "get_comments art max_comments0 max_depth0 percent_thres0 =
     (let max_comments = max 1 max_comments0;
          max_depth = max 0 max_depth0;
          percent_thres = max 0 percent_thres0;
          praw_comments = collect_comments [] (s_comments (art_article art))
      in select_comments [] (take (nat max_comments) praw_comments) max_depth percent_thres)"

subsection \<open>\<^verbatim>\<open>has_video\<close>\<close>

definition has_video :: "article \<Rightarrow> int option \<Rightarrow> int option \<Rightarrow> bool \<Rightarrow> bool" where
  "has_video art min_duration max_duration include_youtube =
     (case art_media art of
        None \<Rightarrow> False
      | Some m \<Rightarrow>
          (case media_reddit_video m of
             Some rv \<Rightarrow>
               if \<not> is_gif rv then
                 (let dur = duration rv;
                      dur_valid =
                        ((case max_duration of None \<Rightarrow> True | Some mx \<Rightarrow> dur \<le> mx) \<and>
                         (case min_duration of None \<Rightarrow> True | Some mn \<Rightarrow> dur \<ge> mn))
                  in if dur_valid then True else False)
               else False
           | None \<Rightarrow>
               (case media_type m of
                  Some ty \<Rightarrow> if ty = ''youtube.com'' \<and> include_youtube then True else False
                | None \<Rightarrow> False)))"

subsection \<open>Vocabulary for the statements about comment chains\<close>

text \<open>The number of children chained below a comment.\<close>

fun chain_length :: "reddit_comment \<Rightarrow> nat" where
  "chain_length (RedditComment a t s None) = 0"
| "chain_length (RedditComment a t s (Some c)) = Suc (chain_length c)"

text \<open>
  \<open>chain_justified thres c p\<close>: every link of the chain below \<open>c\<close> is warranted by the
  comment tree below \<open>p\<close>. A child of a comment made from a node is made from the reply
  that \<^verbatim>\<open>_expand_comment\<close> selects among the node's replies, the score of that reply
  strictly exceeds the score of the parent times \<open>thres\<close>, and the same holds one level
  down.
\<close>

fun chain_justified :: "real \<Rightarrow> reddit_comment \<Rightarrow> praw_node \<Rightarrow> bool" where
  "chain_justified thres (RedditComment a t s None) praw_comment = True"
| "chain_justified thres (RedditComment a t s (Some c)) praw_comment =
     (case best_reply_loop None (pc_replies praw_comment) of
        None \<Rightarrow> False
      | Some b \<Rightarrow>
          real_of_int (pc_score b) > real_of_int s * thres \<and>
          rc_author c = pc_author b \<and> rc_text c = pc_body b \<and> rc_score c = pc_score b \<and>
          chain_justified thres c b)"

text \<open>A comment tree used to run the expansion on a concrete input.\<close>

definition example_thread :: praw_node where
  "example_thread =
     Comment (Some ''alice'') ''top'' 10
       [MoreComments,
        Comment (Some ''bob'') ''first reply'' 6
          [Comment (Some ''dave'') ''nested'' 4
             [Comment (Some ''erin'') ''too deep'' 100 []]],
        Comment (Some ''carol'') ''second reply'' 6 [],
        Comment None ''low'' 3 []]"

subsection \<open>The environment of the reader\<close>

text \<open>
  What a call into PRAW does: it returns a value, raises a
  \<^verbatim>\<open>praw.exceptions.PRAWException\<close> printed as the given string, or raises something else.
\<close>

datatype 'a api_result =
    ApiOk 'a
  | PRAWException string
  | OtherApiFault pyexc

text \<open>The network calls of the reader, with their arguments.\<close>

datatype revent =
    ApiHot string "int option"
  | ApiTop string string "int option"
  | HttpHead string

text \<open>
  Everything outside the module that the reader consults:
  \<^item> \<open>clock k\<close>: the value of the \<open>k\<close>-th call of \<^verbatim>\<open>datetime.now().timestamp()\<close>,
    counted from 0;
  \<^item> \<open>api_hot\<close>, \<open>api_top\<close>: \<^verbatim>\<open>subreddit(name).hot(limit)\<close> and
    \<^verbatim>\<open>subreddit(name).top(time_filter, limit)\<close>;
  \<^item> \<open>http_head url\<close>: the status code of \<^verbatim>\<open>requests.head(url)\<close>, or what it raises;
  \<^item> \<open>netloc_fault netloc\<close>: the exception that the URL library raises when it validates
    the host of the network location \<open>netloc\<close>, if any (see the library functions used by
    \<^verbatim>\<open>get_video\<close> below).
\<close>

record renv =
  clock :: "nat \<Rightarrow> real"
  api_hot :: "string \<Rightarrow> int option \<Rightarrow> submission list api_result"
  api_top :: "string \<Rightarrow> string \<Rightarrow> int option \<Rightarrow> submission list api_result"
  http_head :: "string \<Rightarrow> int outcome"
  netloc_fault :: "string \<Rightarrow> pyexc option"

subsection \<open>\<^verbatim>\<open>_filter_articles\<close>\<close>

text \<open>
  The loop of \<^verbatim>\<open>_filter_articles\<close>. \<open>filtered\<close> is the list of the same name, \<open>t\<close> the
  number of clock readings made so far: the property \<^verbatim>\<open>age\<close> reads the clock each time
  it is evaluated, which happens for an article that passes the score test when
  \<^verbatim>\<open>min_age\<close> is given.
\<close>

fun filter_loop ::
  "(nat \<Rightarrow> real) \<Rightarrow> int option \<Rightarrow> real option \<Rightarrow> article list \<Rightarrow> nat \<Rightarrow> article list
     \<Rightarrow> article list \<times> nat" where
  "filter_loop clk min_score min_age filtered t [] = (filtered, t)"
| "filter_loop clk min_score min_age filtered t (art # arts) =
     (if (case min_score of None \<Rightarrow> False | Some m \<Rightarrow> art_score art < m)
      then filter_loop clk min_score min_age filtered t arts
      else
        (case min_age of
           None \<Rightarrow> filter_loop clk min_score min_age (filtered @ [art]) t arts
         | Some m \<Rightarrow>
             if age (clk t) art < m
             then filter_loop clk min_score min_age filtered (t + 1) arts
             else filter_loop clk min_score min_age (filtered @ [art]) (t + 1) arts))"

definition filter_articles ::
  "(nat \<Rightarrow> real) \<Rightarrow> nat \<Rightarrow> article list \<Rightarrow> int option \<Rightarrow> real option
     \<Rightarrow> article list \<times> nat" where
  "filter_articles clk t articles min_score min_age =
     filter_loop clk min_score min_age [] t articles"

subsection \<open>\<^verbatim>\<open>get_hot_articles\<close> and \<^verbatim>\<open>get_top_articles\<close>\<close>

text \<open>The expression \<^verbatim>\<open>limit and max(1, limit) or None\<close>.\<close>

definition norm_limit :: "int option \<Rightarrow> int option" where
  "norm_limit limit =
     (case limit of
        None \<Rightarrow> None
      | Some n \<Rightarrow> if n = 0 then None else Some (max 1 n))"

text \<open>
  The part common to both methods below the call into PRAW. The result is the outcome,
  the network calls made, and the number of clock readings made so far.
\<close>

definition listing ::
  "renv \<Rightarrow> nat \<Rightarrow> revent \<Rightarrow> submission list api_result \<Rightarrow> int option \<Rightarrow> real option
     \<Rightarrow> article list outcome \<times> revent list \<times> nat" where
  "listing env t call fetched min_score min_age =
     (case fetched of
        PRAWException msg \<Rightarrow> (Inl (RedditApiException msg), [call], t)
      | OtherApiFault e \<Rightarrow> (Inl e, [call], t)
      | ApiOk raw_articles \<Rightarrow>
          (let unfiltered = map RedditArticle raw_articles in
           case filter_articles (clock env) t unfiltered min_score min_age of
             (filtered, t') \<Rightarrow> (Inr (sort_by_score_desc art_score filtered), [call], t')))"

definition get_hot_articles ::
  "renv \<Rightarrow> nat \<Rightarrow> string \<Rightarrow> int option \<Rightarrow> int option \<Rightarrow> real option
     \<Rightarrow> article list outcome \<times> revent list \<times> nat" where
  "get_hot_articles env t subreddit limit min_score min_age =
     (let limit' = norm_limit limit in
      listing env t (ApiHot subreddit limit') (api_hot env subreddit limit') min_score min_age)"

definition get_top_articles ::
  "renv \<Rightarrow> nat \<Rightarrow> string \<Rightarrow> string \<Rightarrow> int option \<Rightarrow> int option \<Rightarrow> real option
     \<Rightarrow> article list outcome \<times> revent list \<times> nat" where
  "get_top_articles env t subreddit time_filter limit min_score min_age =
     (if time_filter \<notin> set VALID_TIME_FILTERS then
        (Inl (RedditApiException
           ''time_filter must be one of ('all', 'day', 'hour', 'month', 'week', 'year')''),
         [], t)
      else
        (let limit' = norm_limit limit in
         listing env t (ApiTop subreddit time_filter limit')
           (api_top env subreddit time_filter limit') min_score min_age))"

subsection \<open>Vocabulary for the statements about listings\<close>

text \<open>
  The error kinds of the specification (its section 7) and the exception classes of the
  source that carry them: \<^verbatim>\<open>ValueError\<close> is the class that \<^verbatim>\<open>upload\<close> raises for an
  invalid argument, \<^verbatim>\<open>RedditApiException\<close> the class in which the reader wraps a failure
  of the Reddit API.
\<close>

datatype error_kind =
    InvalidArgument | NotAuthenticated | SourceApiError | VideoNotFound
  | NotImplemented | UploadFailed | Unclassified

fun kind_of :: "pyexc \<Rightarrow> error_kind" where
  "kind_of (ValueError m) = InvalidArgument"
| "kind_of (AuthException m) = NotAuthenticated"
| "kind_of (RedditApiException m) = SourceApiError"
| "kind_of RedditVideoNotFound = VideoNotFound"
| "kind_of NotImplementedError = NotImplemented"
| "kind_of (UploadException m) = UploadFailed"
| "kind_of (TypeError m) = Unclassified"
| "kind_of (ExternalError m) = Unclassified"

text \<open>A submission with the given id, score, creation time and media descriptor.\<close>

definition submission_of :: "string \<Rightarrow> int \<Rightarrow> real \<Rightarrow> media option \<Rightarrow> submission" where
  "submission_of ident sc created m =
     \<lparr>s_title = ''A post'', s_author_name = Some ''alice'', s_selftext = [],
      s_category = None, s_id = ident, s_url = ''https://www.reddit.com/'' @ ident,
      s_score = sc, s_over_18 = False, s_created_utc = created, s_media = m,
      s_comments = []\<rparr>"

text \<open>
  An environment used to run the reader on concrete inputs: the clock starts at 7200
  seconds and advances by one second per reading, and the "hot" listing has five
  submissions.
\<close>

definition env_listing :: renv where
  "env_listing =
     \<lparr>clock = (\<lambda>k. 7200 + real k),
      api_hot = (\<lambda>subreddit limit.
         ApiOk [submission_of ''a'' 5 0 None, submission_of ''b'' 50 0 None,
                submission_of ''c'' 80 7000 None, submission_of ''d'' 50 3600 None,
                submission_of ''e'' 90 10 None]),
      api_top = (\<lambda>subreddit time_filter limit. PRAWException ''received 503 HTTP response''),
      http_head = (\<lambda>url. Inr 404),
      netloc_fault = (\<lambda>netloc. Some (ValueError ''Invalid host''))\<rparr>"

section \<open>Library functions used by \<^verbatim>\<open>get_video\<close>\<close>

text \<open>
  \<^verbatim>\<open>get_video\<close> derives the audio URL with \<^verbatim>\<open>urlsplit\<close>, \<^verbatim>\<open>urljoin\<close> and \<^verbatim>\<open>urlunsplit\<close> of
  \<^verbatim>\<open>urllib.parse\<close> and with \<^verbatim>\<open>os.path.splitext\<close>. These belong to Python's standard
  library, not to the repository; they are written out here after the library's
  algorithm (Python 3.11). A character is a byte, so a character above 127 stands for a
  part of a non-ASCII character. Two checks of the library are not written out but taken
  as a parameter \<open>chk\<close>: the validation of a host in brackets and the check of a network
  location with non-ASCII characters. \<open>chk netloc\<close> is the exception that these checks
  raise for the network location, if any; it is consulted only where the library runs
  one of the two checks.
\<close>

subsection \<open>String helpers\<close>

text \<open>\<^verbatim>\<open>s.split(c)\<close>: the pieces of \<open>s\<close> between the occurrences of \<open>c\<close>.\<close>

fun split_on :: "char \<Rightarrow> string \<Rightarrow> string list" where
  "split_on c [] = [[]]"
| "split_on c (x # xs) =
     (if x = c then [] # split_on c xs
      else (case split_on c xs of
              [] \<Rightarrow> [[x]]
            | seg # segs \<Rightarrow> (x # seg) # segs))"

text \<open>\<^verbatim>\<open>c.join(segs)\<close>.\<close>

fun join_with :: "char \<Rightarrow> string list \<Rightarrow> string" where
  "join_with c [] = []"
| "join_with c [seg] = seg"
| "join_with c (seg # segs) = seg @ c # join_with c segs"

text \<open>
  \<^verbatim>\<open>s.split(c, 1)\<close> for an \<open>s\<close> that contains \<open>c\<close>: the part before the first \<open>c\<close> and the
  part after it.
\<close>

definition split_first :: "char \<Rightarrow> string \<Rightarrow> string \<times> string" where
  "split_first c s = (takeWhile (\<lambda>x. x \<noteq> c) s, drop 1 (dropWhile (\<lambda>x. x \<noteq> c) s))"

definition ascii_lowercase :: string where
  "ascii_lowercase = ''abcdefghijklmnopqrstuvwxyz''"

definition ascii_uppercase :: string where
  "ascii_uppercase = ''ABCDEFGHIJKLMNOPQRSTUVWXYZ''"

definition lower_char :: "char \<Rightarrow> char" where
  "lower_char c =
     (case map_of (zip ascii_uppercase ascii_lowercase) c of None \<Rightarrow> c | Some l \<Rightarrow> l)"

subsection \<open>\<^verbatim>\<open>urllib.parse\<close>\<close>

definition scheme_chars :: string where
  "scheme_chars = ascii_lowercase @ ascii_uppercase @ ''0123456789+-.''"

definition uses_relative :: "string list" where
  "uses_relative =
     ['''', ''ftp'', ''http'', ''gopher'', ''nntp'', ''imap'', ''wais'', ''file'', ''https'',
      ''shttp'', ''mms'', ''prospero'', ''rtsp'', ''rtsps'', ''rtspu'', ''sftp'', ''svn'',
      ''svn+ssh'', ''ws'', ''wss'']"

definition uses_netloc :: "string list" where
  "uses_netloc =
     ['''', ''ftp'', ''http'', ''gopher'', ''nntp'', ''telnet'', ''imap'', ''wais'', ''file'',
      ''mms'', ''https'', ''shttp'', ''snews'', ''prospero'', ''rtsp'', ''rtsps'', ''rtspu'',
      ''rsync'', ''svn'', ''svn+ssh'', ''sftp'', ''nfs'', ''git'', ''git+ssh'', ''ws'', ''wss'',
      ''itms-services'']"

definition uses_params :: "string list" where
  "uses_params =
     ['''', ''ftp'', ''hdl'', ''prospero'', ''http'', ''imap'', ''https'', ''shttp'', ''rtsp'',
      ''rtsps'', ''rtspu'', ''sip'', ''sips'', ''mms'', ''sftp'', ''tel'']"

text \<open>
  The scheme of a URL and what follows its colon: the characters before the first colon
  are a scheme when there is at least one, the first is a letter and all are scheme
  characters. Otherwise the scheme is the default and the URL is left whole.
\<close>

definition split_scheme :: "string \<Rightarrow> string \<Rightarrow> string \<times> string" where
  "split_scheme dflt url =
     (let prefix = takeWhile (\<lambda>x. x \<noteq> CHR '':'') url in
      if CHR '':'' \<in> set url \<and> prefix \<noteq> []
         \<and> hd prefix \<in> set (ascii_lowercase @ ascii_uppercase)
         \<and> (\<forall>c \<in> set prefix. c \<in> set scheme_chars)
      then (map lower_char prefix, drop (length prefix + 1) url)
      else (dflt, url))"

text \<open>
  The characters that \<^verbatim>\<open>urlsplit\<close> strips from the front of a URL (C0 control characters
  and the space) and those that it removes wherever they stand (tab, line feed, carriage
  return).
\<close>

definition c0_control_or_space :: "char \<Rightarrow> bool" where
  "c0_control_or_space c = (of_char c \<le> (32::nat))"

definition UNSAFE_URL_BYTES_TO_REMOVE :: string where
  "UNSAFE_URL_BYTES_TO_REMOVE = [CHR 0x09, CHR 0x0A, CHR 0x0D]"

definition remove_unsafe :: "string \<Rightarrow> string" where
  "remove_unsafe s = filter (\<lambda>c. c \<notin> set UNSAFE_URL_BYTES_TO_REMOVE) s"

text \<open>
  \<^verbatim>\<open>url.lstrip(_WHATWG_C0_CONTROL_OR_SPACE)\<close> and
  \<^verbatim>\<open>scheme.strip(_WHATWG_C0_CONTROL_OR_SPACE)\<close>, each followed by the removal of the unsafe
  characters.
\<close>

definition clean_url :: "string \<Rightarrow> string" where
  "clean_url url = remove_unsafe (dropWhile c0_control_or_space url)"

definition clean_scheme :: "string \<Rightarrow> string" where
  "clean_scheme scheme =
     remove_unsafe
       (rev (dropWhile c0_control_or_space (rev (dropWhile c0_control_or_space scheme))))"

text \<open>
  Whether the library runs a check on the network location that is not written out here:
  it validates the host when the location has both brackets, and it checks a location
  that is not ASCII.
\<close>

definition needs_netloc_check :: "string \<Rightarrow> bool" where
  "needs_netloc_check netloc =
     ((CHR ''['' \<in> set netloc \<and> CHR '']'' \<in> set netloc)
      \<or> (\<exists>c \<in> set netloc. (128::nat) \<le> of_char c))"

text \<open>\<^verbatim>\<open>_splitnetloc(url, 2)\<close> on what follows the two slashes.\<close>

definition split_netloc :: "string \<Rightarrow> string \<times> string" where
  "split_netloc rest =
     (takeWhile (\<lambda>x. x \<notin> set ''/?#'') rest, dropWhile (\<lambda>x. x \<notin> set ''/?#'') rest)"

text \<open>
  \<^verbatim>\<open>urlsplit(url, scheme)\<close>: scheme, network location, path, query and fragment, or the
  \<^verbatim>\<open>ValueError\<close> for an unbalanced bracket in the network location, or what the checks
  of the network location raise.
\<close>

definition urlsplit ::
  "(string \<Rightarrow> pyexc option) \<Rightarrow> string \<Rightarrow> string
     \<Rightarrow> (string \<times> string \<times> string \<times> string \<times> string) outcome" where
  "urlsplit chk url0 dflt0 =
     (let url = clean_url url0; dflt = clean_scheme dflt0 in
      case split_scheme dflt url of
        (scheme, rest) \<Rightarrow>
          (case (if take 2 rest = ''//'' then split_netloc (drop 2 rest) else ([], rest)) of
             (netloc, rest2) \<Rightarrow>
               if (CHR ''['' \<in> set netloc \<and> CHR '']'' \<notin> set netloc)
                  \<or> (CHR '']'' \<in> set netloc \<and> CHR ''['' \<notin> set netloc)
               then Inl (ValueError ''Invalid IPv6 URL'')
               else
                 (case (if needs_netloc_check netloc then chk netloc else None) of
                    Some e \<Rightarrow> Inl e
                  | None \<Rightarrow>
                      (case (if CHR ''#'' \<in> set rest2 then split_first CHR ''#'' rest2
                             else (rest2, [])) of
                         (rest3, fragment) \<Rightarrow>
                           (case (if CHR ''?'' \<in> set rest3 then split_first CHR ''?'' rest3
                                  else (rest3, [])) of
                              (path, query) \<Rightarrow>
                                Inr (scheme, netloc, path, query, fragment))))))"

text \<open>\<^verbatim>\<open>urlunsplit((scheme, netloc, url, query, fragment))\<close>.\<close>

definition urlunsplit :: "string \<times> string \<times> string \<times> string \<times> string \<Rightarrow> string" where
  "urlunsplit parts =
     (case parts of
        (scheme, netloc, url, query, fragment) \<Rightarrow>
          (let url1 =
                 (if netloc \<noteq> [] \<or>
                     (scheme \<noteq> [] \<and> scheme \<in> set uses_netloc \<and> take 2 url \<noteq> ''//'')
                  then ''//'' @ netloc @
                         (if url \<noteq> [] \<and> take 1 url \<noteq> ''/'' then CHR ''/'' # url else url)
                  else url);
               url2 = (if scheme \<noteq> [] then scheme @ CHR '':'' # url1 else url1);
               url3 = (if query \<noteq> [] then url2 @ CHR ''?'' # query else url2)
           in if fragment \<noteq> [] then url3 @ CHR ''#'' # fragment else url3))"

text \<open>
  \<^verbatim>\<open>_splitparams(url)\<close>: the parameters of the last path segment, after its first
  semicolon.
\<close>

definition splitparams :: "string \<Rightarrow> string \<times> string" where
  "splitparams url =
     (let last_seg = last (split_on CHR ''/'' url) in
      if CHR '';'' \<in> set last_seg
      then (take (length url - length last_seg) url @ takeWhile (\<lambda>x. x \<noteq> CHR '';'') last_seg,
            drop 1 (dropWhile (\<lambda>x. x \<noteq> CHR '';'') last_seg))
      else (url, []))"

text \<open>\<^verbatim>\<open>urlparse(url, scheme)\<close>: as \<^verbatim>\<open>urlsplit\<close>, with the parameters split off the path.\<close>

definition urlparse ::
  "(string \<Rightarrow> pyexc option) \<Rightarrow> string \<Rightarrow> string
     \<Rightarrow> (string \<times> string \<times> string \<times> string \<times> string \<times> string) outcome" where
  "urlparse chk url dflt =
     (case urlsplit chk url dflt of
        Inl e \<Rightarrow> Inl e
      | Inr (scheme, netloc, path, query, fragment) \<Rightarrow>
          if scheme \<in> set uses_params \<and> CHR '';'' \<in> set path
          then (case splitparams path of
                  (path', params) \<Rightarrow> Inr (scheme, netloc, path', params, query, fragment))
          else Inr (scheme, netloc, path, [], query, fragment))"

definition urlunparse ::
  "string \<times> string \<times> string \<times> string \<times> string \<times> string \<Rightarrow> string" where
  "urlunparse parts =
     (case parts of
        (scheme, netloc, url, params, query, fragment) \<Rightarrow>
          urlunsplit (scheme, netloc,
                      (if params \<noteq> [] then url @ CHR '';'' # params else url),
                      query, fragment))"

text \<open>
  The loop of \<^verbatim>\<open>urljoin\<close> that removes the dot segments; the first argument is the list
  \<^verbatim>\<open>resolved_path\<close>.
\<close>

fun resolve_segments :: "string list \<Rightarrow> string list \<Rightarrow> string list" where
  "resolve_segments resolved_path [] = resolved_path"
| "resolve_segments resolved_path (seg # segs) =
     (if seg = ''..'' then resolve_segments (butlast resolved_path) segs
      else if seg = ''.'' then resolve_segments resolved_path segs
      else resolve_segments (resolved_path @ [seg]) segs)"

text \<open>The assignment \<^verbatim>\<open>segments[1:-1] = filter(None, segments[1:-1])\<close>.\<close>

definition drop_empty_middle :: "string list \<Rightarrow> string list" where
  "drop_empty_middle segments =
     (if length segments < 2 then segments
      else hd segments # filter (\<lambda>s. s \<noteq> []) (butlast (tl segments)) @ [last segments])"

text \<open>\<^verbatim>\<open>urljoin(base, url)\<close>.\<close>

definition urljoin :: "(string \<Rightarrow> pyexc option) \<Rightarrow> string \<Rightarrow> string \<Rightarrow> string outcome" where
  "urljoin chk base url =
     (if base = [] then Inr url
      else if url = [] then Inr base
      else
        (case urlparse chk base [] of
           Inl e \<Rightarrow> Inl e
         | Inr (bscheme, bnetloc, bpath, bparams, bquery, bfragment) \<Rightarrow>
             (case urlparse chk url bscheme of
                Inl e \<Rightarrow> Inl e
              | Inr (scheme, netloc, path, params, query, fragment) \<Rightarrow>
                  if scheme \<noteq> bscheme \<or> scheme \<notin> set uses_relative then Inr url
                  else if scheme \<in> set uses_netloc \<and> netloc \<noteq> [] then
                    Inr (urlunparse (scheme, netloc, path, params, query, fragment))
                  else
                    (let netloc' = (if scheme \<in> set uses_netloc then bnetloc else netloc) in
                     if path = [] \<and> params = [] then
                       Inr (urlunparse (scheme, netloc', bpath, bparams,
                              (if query = [] then bquery else query), fragment))
                     else
                       (let base_parts0 = split_on CHR ''/'' bpath;
                            base_parts =
                              (if last base_parts0 \<noteq> [] then butlast base_parts0
                               else base_parts0);
                            segments =
                              (if take 1 path = ''/'' then split_on CHR ''/'' path
                               else drop_empty_middle (base_parts @ split_on CHR ''/'' path));
                            resolved0 = resolve_segments [] segments;
                            resolved_path =
                              (if last segments = ''.'' \<or> last segments = ''..''
                               then resolved0 @ [[]] else resolved0);
                            joined = join_with CHR ''/'' resolved_path
                        in Inr (urlunparse (scheme, netloc',
                                  (if joined = [] then ''/'' else joined),
                                  params, query, fragment)))))))"

subsection \<open>\<^verbatim>\<open>os.path.splitext\<close>\<close>

text \<open>
  The extension that \<^verbatim>\<open>os.path.splitext(p)[1]\<close> returns: the last segment of \<open>p\<close> from its
  last dot on, provided some character of the segment before that dot is not a dot;
  empty otherwise.
\<close>

definition splitext_ext :: "string \<Rightarrow> string" where
  "splitext_ext p =
     (let name = last (split_on CHR ''/'' p);
          ext_rev = takeWhile (\<lambda>x. x \<noteq> CHR ''.'') (rev name);
          stem = take (length name - length ext_rev - 1) name
      in if CHR ''.'' \<in> set name \<and> (\<exists>c \<in> set stem. c \<noteq> CHR ''.'')
         then CHR ''.'' # rev ext_rev
         else [])"

section \<open>Video references\<close>

text \<open>
  Modelled from the spec: the class \<^verbatim>\<open>RedditVideoRef\<close> of \<^verbatim>\<open>rvidmaker.videos\<close>, which is
  not among the sources. The specification's VideoReference has a title, an author, a
  primary video URL, an optional audio URL and a duration in seconds; \<^verbatim>\<open>get_video\<close>
  passes these five values to the constructor in this order.
\<close>

record video_ref =
  vr_title :: string
  vr_author :: "string option"
  vr_video_url :: string
  vr_audio_url :: "string option"
  vr_duration :: real

definition RedditVideoRef ::
  "string \<Rightarrow> string option \<Rightarrow> string \<Rightarrow> string option \<Rightarrow> real \<Rightarrow> video_ref" where
  "RedditVideoRef title author video_url audio_url dur =
     \<lparr>vr_title = title, vr_author = author, vr_video_url = video_url,
      vr_audio_url = audio_url, vr_duration = dur\<rparr>"

subsection \<open>\<^verbatim>\<open>get_video\<close>\<close>

text \<open>
  The statements of \<^verbatim>\<open>get_video\<close> between the comments "Get video and audio URLs" and
  "Check if audio exists": the candidate audio URL for a video URL.
\<close>

definition derive_audio_url :: "(string \<Rightarrow> pyexc option) \<Rightarrow> string \<Rightarrow> string outcome" where
  "derive_audio_url chk video_url =
     (case urlsplit chk video_url [] of
        Inl e \<Rightarrow> Inl e
      | Inr (scheme, netloc, audio_url_path, query, fragment) \<Rightarrow>
          (let audio_ext = splitext_ext audio_url_path;
               audio_basename = (if audio_ext = ''.mp4'' then ''DASH_audio.mp4'' else ''audio'')
           in case urljoin chk audio_url_path audio_basename of
                Inl e \<Rightarrow> Inl e
              | Inr joined \<Rightarrow> Inr (urlunsplit (scheme, netloc, joined, [], []))))"

text \<open>
  \<^verbatim>\<open>get_video\<close>: the outcome and the network calls made. The test
  \<^verbatim>\<open>"reddit_video" in self._media\<close> raises \<^verbatim>\<open>TypeError\<close> on \<^verbatim>\<open>None\<close>, which cannot happen
  once \<^verbatim>\<open>has_video()\<close> has returned true.
\<close>

definition get_video :: "renv \<Rightarrow> article \<Rightarrow> video_ref outcome \<times> revent list" where
  "get_video env art =
     (if \<not> has_video art None None True then (Inl RedditVideoNotFound, [])
      else
        (case art_media art of
           None \<Rightarrow> (Inl (TypeError ''argument of type 'NoneType' is not iterable''), [])
         | Some m \<Rightarrow>
             (case media_reddit_video m of
                Some rv \<Rightarrow>
                  (let dur = real_of_int (duration rv);
                       video_url = fallback_url rv
                   in case derive_audio_url (netloc_fault env) video_url of
                        Inl e \<Rightarrow> (Inl e, [])
                      | Inr audio_url \<Rightarrow>
                          (case http_head env audio_url of
                             Inl e \<Rightarrow> (Inl e, [HttpHead audio_url])
                           | Inr status_code \<Rightarrow>
                               (Inr (RedditVideoRef (art_title art) (art_author art) video_url
                                       (if status_code \<noteq> 200 then None else Some audio_url)
                                       dur),
                                [HttpHead audio_url])))
              | None \<Rightarrow> (Inl NotImplementedError, []))))"

subsection \<open>Articles used to run the reader on concrete inputs\<close>

text \<open>
  The media descriptor of a video hosted by Reddit, an article with a 10-second video of
  this kind, and an article with no media.
\<close>

definition native_media :: "bool \<Rightarrow> int \<Rightarrow> string \<Rightarrow> media" where
  "native_media gif dur url =
     \<lparr>media_reddit_video = Some \<lparr>is_gif = gif, duration = dur, fallback_url = url\<rparr>,
      media_type = None\<rparr>"

definition short_clip :: article where
  "short_clip =
     RedditArticle (submission_of ''clip'' 100 0
       (Some (native_media False 10 ''https://v.redd.it/abc123/DASH_240.mp4?source=x'')))"

definition text_post :: article where
  "text_post = RedditArticle (submission_of ''text'' 100 0 None)"

section \<open>\<^verbatim>\<open>RedditComment\<close> objects in a store\<close>

text \<open>
  To speak about the identity of comment objects, the objects live in a store: the list
  of all \<^verbatim>\<open>RedditComment\<close> objects created so far, an object being referred to by its
  position. A reference is \<open>None\<close> for Python's \<^verbatim>\<open>None\<close>. Creating an object appends it, so
  a new object has a position that no older object has.
\<close>

record comment_obj =
  o_author :: "string option"
  o_text :: string
  o_score :: int
  o_child :: "nat option"

type_synonym store = "comment_obj list"

text \<open>\<^verbatim>\<open>RedditComment.__init__\<close>: the new object has no child.\<close>

definition new_comment ::
  "store \<Rightarrow> string option \<Rightarrow> string \<Rightarrow> int \<Rightarrow> nat \<times> store" where
  "new_comment h author text score =
     (length h, h @ [\<lparr>o_author = author, o_text = text, o_score = score, o_child = None\<rparr>])"

text \<open>
  \<^verbatim>\<open>copy.copy\<close>: \<^verbatim>\<open>None\<close> is returned as it is; for an object, a new object with the same
  attribute values (a shallow copy) is created. A position beyond the store refers to no
  object, which no Python reference does; the last case only makes the function total.
\<close>

definition py_copy :: "store \<Rightarrow> nat option \<Rightarrow> nat option \<times> store" where
  "py_copy h r =
     (case r of
        None \<Rightarrow> (None, h)
      | Some a \<Rightarrow> if a < length h then (Some (length h), h @ [h ! a]) else (None, h))"

text \<open>The getter of the property \<^verbatim>\<open>child\<close>: \<^verbatim>\<open>return copy(self._child)\<close>.\<close>

definition get_child :: "store \<Rightarrow> nat \<Rightarrow> nat option \<times> store" where
  "get_child h self = (if self < length h then py_copy h (o_child (h ! self)) else (None, h))"

text \<open>The setter of the property \<^verbatim>\<open>child\<close>: \<^verbatim>\<open>self._child = child\<close>.\<close>

definition set_child :: "store \<Rightarrow> nat \<Rightarrow> nat option \<Rightarrow> store" where
  "set_child h self child =
     (if self < length h then h[self := (h ! self)\<lparr>o_child := child\<rparr>] else h)"

text \<open>
  A store is well formed when every child reference in it refers to an object of the
  store.
\<close>

definition wf_store :: "store \<Rightarrow> bool" where
  "wf_store h = list_all (\<lambda>ob. case o_child ob of None \<Rightarrow> True | Some c \<Rightarrow> c < length h) h"

text \<open>
  The chain that starts at a reference: the objects met by following the child
  references, at most \<open>n\<close> of them.
\<close>

fun chain :: "store \<Rightarrow> nat \<Rightarrow> nat option \<Rightarrow> comment_obj list" where
  "chain h 0 r = []"
| "chain h (Suc n) None = []"
| "chain h (Suc n) (Some a) =
     (if a < length h then h ! a # chain h n (o_child (h ! a)) else [])"

text \<open>A store with a comment, its child and its grandchild.\<close>

definition example_store :: store where
  "example_store =
     [\<lparr>o_author = Some ''alice'', o_text = ''top'', o_score = 10, o_child = Some 1\<rparr>,
      \<lparr>o_author = Some ''bob'', o_text = ''first reply'', o_score = 6, o_child = Some 2\<rparr>,
      \<lparr>o_author = Some ''dave'', o_text = ''nested'', o_score = 4, o_child = None\<rparr>]"

section \<open>Properties of the uploader\<close>

subsection \<open>Auxiliary facts\<close>

lemma is_str_iff:
  "is_str v \<longleftrightarrow> (\<exists>s. v = PyStr s)"
  by (cases v) simp_all
lemma is_set_iff:
  "is_set v \<longleftrightarrow> (\<exists>s. v = PySet s)"
  by (cases v) simp_all
lemma is_int_iff:
  "is_int v \<longleftrightarrow> (\<exists>s. v = PyInt s)"
  by (cases v) simp_all

lemma upload_bad_path:
  "\<not> is_str path \<Longrightarrow>
   upload env path title desc tags category ps =
     (Some (Inl (TypeError ''path must be of type str'')), [])"
  unfolding upload_def by (cases path) simp_all

lemma upload_bad_title:
  "\<not> is_str title \<Longrightarrow>
   upload env (PyStr p) title desc tags category ps =
     (Some (Inl (TypeError ''title must be of type str'')), [])"
  unfolding upload_def by (cases title) simp_all

lemma upload_bad_desc:
  "\<not> is_str desc \<Longrightarrow>
   upload env (PyStr p) (PyStr t) desc tags category ps =
     (Some (Inl (TypeError ''desc must be of type str'')), [])"
  unfolding upload_def by (cases desc) simp_all

lemma upload_bad_tags:
  "\<not> is_set tags \<Longrightarrow>
   upload env (PyStr p) (PyStr t) (PyStr d) tags category ps =
     (Some (Inl (TypeError ''tags must be of type set'')), [])"
  unfolding upload_def by (cases tags) simp_all

lemma upload_bad_category:
  "\<not> is_int category \<Longrightarrow>
   upload env (PyStr p) (PyStr t) (PyStr d) (PySet tg) category ps =
     (Some (Inl (TypeError ''category must be of type int'')), [])"
  unfolding upload_def by (cases category) simp_all

lemma upload_well_typed:
  "upload env (PyStr p) (PyStr t) (PyStr d) (PySet tg) (PyInt c) ps = upload_typed env p t d tg c ps"
  unfolding upload_def by simp

lemma after_try_retry:
  assumes "error st = Some err" "retry st < 10"
  shows "after_try rnd st =
     Inr (st\<lparr>retry := retry st + 1, draws := draws st + 1,
              trace := trace st @ [Print err,
                 PrintSleeping (rnd (draws st) * 2 ^ nat (retry st + 1)),
                 Sleep (rnd (draws st) * 2 ^ nat (retry st + 1))]\<rparr>)"
  using assms by (simp add: after_try_def log_event_def MAX_RETRIES_def Let_def)

lemma after_try_exhausted:
  assumes "error st = Some err" "10 \<le> retry st"
  shows "after_try rnd st =
     Inl (UploadException ''No longer attempting to retry'',
          st\<lparr>retry := retry st + 1, trace := trace st @ [Print err]\<rparr>)"
  using assms by (simp add: after_try_def log_event_def MAX_RETRIES_def Let_def)

lemma sleeps_append: "sleeps (xs @ ys) = sleeps xs @ sleeps ys"
  by (induction xs rule: sleeps.induct) simp_all

lemma upload_loop_fault_retry:
  assumes "retriable_fault f" "retry st < 10"
  shows "upload_loop rnd fmt st (f # cs) =
     upload_loop rnd fmt
       (st\<lparr>error := Some (fault_message f), retry := retry st + 1, draws := draws st + 1,
           trace := trace st @ [ApiNextChunk, Print (fault_message f),
                 PrintSleeping (rnd (draws st) * 2 ^ nat (retry st + 1)),
                 Sleep (rnd (draws st) * 2 ^ nat (retry st + 1))]\<rparr>) cs"
  using assms
  by (cases f) (simp_all add: after_try_retry log_event_def)

lemma upload_loop_fault_exhausted:
  assumes "retriable_fault f" "10 \<le> retry st"
  shows "upload_loop rnd fmt st (f # cs) =
     (Some (Inl (UploadException ''No longer attempting to retry'')),
      st\<lparr>error := Some (fault_message f), retry := retry st + 1,
         trace := trace st @ [ApiNextChunk, Print (fault_message f)]\<rparr>)"
  using assms
  by (cases f) (simp_all add: after_try_exhausted log_event_def)


lemma upload_loop_faults:
  assumes "\<forall>f\<in>set fs. retriable_fault f" "0 \<le> retry st" "retry st + int (length fs) \<le> 10"
  shows "\<exists>st'. upload_loop rnd fmt st (fs @ cs) = upload_loop rnd fmt st' cs
            \<and> retry st' = retry st + int (length fs)
            \<and> draws st' = draws st + length fs
            \<and> sleeps (trace st') = sleeps (trace st) @
                 map (\<lambda>i. rnd (draws st + i) * 2 ^ (nat (retry st) + i + 1)) [0..<length fs]"
  using assms
proof (induction fs arbitrary: st)
  case Nil
  show ?case by (intro exI [of _ st]) simp
next
  case (Cons f fs)
  let ?s = "rnd (draws st) * 2 ^ nat (retry st + 1)"
  let ?st1 = "st\<lparr>error := Some (fault_message f), retry := retry st + 1, draws := draws st + 1,
           trace := trace st @ [ApiNextChunk, Print (fault_message f), PrintSleeping ?s, Sleep ?s]\<rparr>"
  from Cons.prems have f: "retriable_fault f" and lt: "retry st < 10" by simp_all
  have step: "upload_loop rnd fmt st ((f # fs) @ cs) = upload_loop rnd fmt ?st1 (fs @ cs)"
    using upload_loop_fault_retry [OF f lt] by simp
  from Cons.prems have "\<forall>f\<in>set fs. retriable_fault f" "0 \<le> retry ?st1"
    "retry ?st1 + int (length fs) \<le> 10" by simp_all
  from Cons.IH [OF this] obtain st' where
    st': "upload_loop rnd fmt ?st1 (fs @ cs) = upload_loop rnd fmt st' cs"
      "retry st' = retry ?st1 + int (length fs)"
      "draws st' = draws ?st1 + length fs"
      "sleeps (trace st') = sleeps (trace ?st1) @
         map (\<lambda>i. rnd (draws ?st1 + i) * 2 ^ (nat (retry ?st1) + i + 1)) [0..<length fs]"
    by blast
  have nat_eq: "nat (retry st + 1) = nat (retry st) + 1"
    using Cons.prems(2) by simp
  have "sleeps (trace st') = sleeps (trace st) @
      map (\<lambda>i. rnd (draws st + i) * 2 ^ (nat (retry st) + i + 1)) [0..<length (f # fs)]"
    using st'(4) by (simp add: sleeps_append map_upt_Suc nat_eq del: upt_Suc)
  with step st'(1,2,3) show ?case
    by (intro exI [of _ st']) simp
qed

lemma sleeps_replicate_next_chunk: "sleeps (replicate n ApiNextChunk) = []"
  by (induction n) simp_all

lemma upload_loop_in_progress:
  assumes "\<forall>c\<in>set pre. c = Chunk None" "error st = None"
  shows "upload_loop rnd fmt st (pre @ cs) =
     upload_loop rnd fmt (st\<lparr>trace := trace st @ replicate (length pre) ApiNextChunk\<rparr>) cs"
  using assms
proof (induction pre arbitrary: st)
  case Nil
  show ?case by simp
next
  case (Cons c pre)
  let ?st1 = "st\<lparr>trace := trace st @ [ApiNextChunk]\<rparr>"
  from Cons.prems have c: "c = Chunk None" and pre: "\<forall>c\<in>set pre. c = Chunk None" by simp_all
  have step: "upload_loop rnd fmt st ((c # pre) @ cs) = upload_loop rnd fmt ?st1 (pre @ cs)"
    using Cons.prems(2) by (simp add: c after_try_def log_event_def)
  have "error ?st1 = None" using Cons.prems(2) by simp
  from Cons.IH [OF pre this, of ] step show ?case
    by (simp add: replicate_app_Cons_same del: upload_loop.simps)
qed

lemma upload_loop_recovers:
  assumes "\<forall>f\<in>set fs. retriable_fault f" "length fs \<le> 10" "map_of resp ''id'' = Some v"
    and "retry st0 = 0" "draws st0 = 0" "sleeps (trace st0) = []"
  shows "\<exists>st'. upload_loop rnd fmt st0 (fs @ Chunk (Some resp) # rest)
              = (Some (Inr v), st')
            \<and> sleeps (trace st') = map (\<lambda>i. rnd i * 2 ^ (i + 1)) [0..<length fs]"
proof -
  have "0 \<le> retry st0" "retry st0 + int (length fs) \<le> 10"
    using assms(2,4) by simp_all
  from upload_loop_faults [OF assms(1) this, of rnd fmt "Chunk (Some resp) # rest"]
  obtain st' where st':
    "upload_loop rnd fmt st0 (fs @ Chunk (Some resp) # rest)
       = upload_loop rnd fmt st' (Chunk (Some resp) # rest)"
    "sleeps (trace st') = map (\<lambda>i. rnd i * 2 ^ (i + 1)) [0..<length fs]"
    by (auto simp: assms(4,5,6) simp del: upload_loop.simps)
  have "upload_loop rnd fmt st' (Chunk (Some resp) # rest)
          = (Some (Inr v), log_event ApiNextChunk st')"
    using assms(3) by simp
  moreover have "sleeps (trace (log_event ApiNextChunk st')) = sleeps (trace st')"
    by (simp add: log_event_def sleeps_append)
  ultimately show ?thesis using st' by simp
qed

lemma upload_loop_gives_up:
  assumes "\<forall>f\<in>set fs. retriable_fault f" "10 < length fs"
    and "retry st0 = 0" "draws st0 = 0" "sleeps (trace st0) = []"
  shows "\<exists>st'. upload_loop rnd fmt st0 (fs @ rest)
              = (Some (Inl (UploadException ''No longer attempting to retry'')), st')
            \<and> sleeps (trace st') = map (\<lambda>i. rnd i * 2 ^ (i + 1)) [0..<10]"
proof -
  obtain pre f post where split: "fs = pre @ f # post" and len: "length pre = 10"
    using id_take_nth_drop [of 10 fs] assms(2) by (metis length_take min.absorb2 less_imp_le)
  have pre: "\<forall>f\<in>set pre. retriable_fault f" and f: "retriable_fault f"
    using assms(1) split by simp_all
  have "0 \<le> retry st0" "retry st0 + int (length pre) \<le> 10"
    by (simp_all add: assms(3) len)
  from upload_loop_faults [OF pre this, of rnd fmt "f # post @ rest"]
  obtain st' where st':
    "upload_loop rnd fmt st0 (pre @ f # post @ rest)
       = upload_loop rnd fmt st' (f # post @ rest)"
    "retry st' = 10"
    "sleeps (trace st') = map (\<lambda>i. rnd i * 2 ^ (i + 1)) [0..<10]"
    by (auto simp: assms(3,4,5) len simp del: upload_loop.simps)
  have "10 \<le> retry st'" using st'(2) by simp
  from upload_loop_fault_exhausted [OF f this, of rnd fmt "post @ rest"] st'(1,3) split
  show ?thesis by (simp add: sleeps_append del: upload_loop.simps)
qed

text \<open>
  The loop as \<^verbatim>\<open>_resumable_upload\<close> enters it, on calls of \<^verbatim>\<open>next_chunk\<close> that begin with
  in-progress chunks followed by retriable faults.
\<close>

lemma resumable_upload_recovers:
  assumes "\<forall>c\<in>set pre. c = Chunk None" "\<forall>f\<in>set fs. retriable_fault f" "length fs \<le> 10"
    and "map_of resp ''id'' = Some v" "chunks env = pre @ fs @ Chunk (Some resp) # rest"
  shows "fst (resumable_upload env) = Some (Inr v)"
    and "sleeps (snd (resumable_upload env))
           = map (\<lambda>i. random env i * 2 ^ (i + 1)) [0..<length fs]"
proof -
  let ?st0 = "initial_loop_state\<lparr>trace := trace initial_loop_state
                 @ replicate (length pre) ApiNextChunk\<rparr>"
  have e: "error initial_loop_state = None" by (simp add: initial_loop_state_def)
  have st0: "retry ?st0 = 0" "draws ?st0 = 0" "sleeps (trace ?st0) = []"
    by (simp_all add: initial_loop_state_def sleeps_replicate_next_chunk)
  from upload_loop_recovers [OF assms(2,3,4) st0, of "random env" "fmt_response env" rest]
  obtain st' where st':
    "upload_loop (random env) (fmt_response env) ?st0 (fs @ Chunk (Some resp) # rest)
       = (Some (Inr v), st')"
    "sleeps (trace st') = map (\<lambda>i. random env i * 2 ^ (i + 1)) [0..<length fs]"
    by blast
  have "upload_loop (random env) (fmt_response env) initial_loop_state (chunks env)
          = (Some (Inr v), st')"
    using upload_loop_in_progress [OF assms(1) e, of "random env" "fmt_response env"
            "fs @ Chunk (Some resp) # rest"] st'(1) assms(5)
    by (simp del: upload_loop.simps)
  then show "fst (resumable_upload env) = Some (Inr v)"
    and "sleeps (snd (resumable_upload env))
           = map (\<lambda>i. random env i * 2 ^ (i + 1)) [0..<length fs]"
    using st'(2) by (simp_all add: resumable_upload_def)
qed

lemma resumable_upload_gives_up:
  assumes "\<forall>c\<in>set pre. c = Chunk None" "\<forall>f\<in>set fs. retriable_fault f" "10 < length fs"
    and "chunks env = pre @ fs @ rest"
  shows "fst (resumable_upload env)
           = Some (Inl (UploadException ''No longer attempting to retry''))"
    and "sleeps (snd (resumable_upload env))
           = map (\<lambda>i. random env i * 2 ^ (i + 1)) [0..<10]"
proof -
  let ?st0 = "initial_loop_state\<lparr>trace := trace initial_loop_state
                 @ replicate (length pre) ApiNextChunk\<rparr>"
  have e: "error initial_loop_state = None" by (simp add: initial_loop_state_def)
  have st0: "retry ?st0 = 0" "draws ?st0 = 0" "sleeps (trace ?st0) = []"
    by (simp_all add: initial_loop_state_def sleeps_replicate_next_chunk)
  from upload_loop_gives_up [OF assms(2,3) st0, of "random env" "fmt_response env" rest]
  obtain st' where st':
    "upload_loop (random env) (fmt_response env) ?st0 (fs @ rest)
       = (Some (Inl (UploadException ''No longer attempting to retry'')), st')"
    "sleeps (trace st') = map (\<lambda>i. random env i * 2 ^ (i + 1)) [0..<10]"
    by blast
  have "upload_loop (random env) (fmt_response env) initial_loop_state (chunks env)
          = (Some (Inl (UploadException ''No longer attempting to retry'')), st')"
    using upload_loop_in_progress [OF assms(1) e, of "random env" "fmt_response env"
            "fs @ rest"] st'(1) assms(4)
    by (simp del: upload_loop.simps)
  then show "fst (resumable_upload env)
           = Some (Inl (UploadException ''No longer attempting to retry''))"
    and "sleeps (snd (resumable_upload env))
           = map (\<lambda>i. random env i * 2 ^ (i + 1)) [0..<10]"
    using st'(2) by (simp_all add: resumable_upload_def)
qed

lemma backoff_bounds:
  assumes "\<forall>k. 0 \<le> rnd k \<and> rnd k < (1::real)"
  shows "0 \<le> rnd k * 2 ^ n \<and> rnd k * 2 ^ n < 2 ^ n"
proof -
  have "0 \<le> rnd k" "rnd k < 1" using assms by simp_all
  moreover have "(0::real) < 2 ^ n" by simp
  ultimately have "0 \<le> rnd k * 2 ^ n" "rnd k * 2 ^ n < 1 * 2 ^ n"
    by (simp_all only: mult_nonneg_nonneg less_imp_le mult_strict_right_mono)
  then show ?thesis by simp
qed

lemma sleeps_get_creds: "sleeps (snd (get_creds env f)) = []"
  by (simp add: get_creds_def split: option.splits)

lemma upload_runs_loop:
  assumes "isfile env p" "0 < c" "ps \<in> set VALID_PRIVACY_STATUSES"
    "fst (get_creds env OAUTH_FILE) \<noteq> None" "build_fault env = None" "insert_fault env = None"
  shows "fst (upload env (PyStr p) (PyStr t) (PyStr d) (PySet tg) (PyInt c) ps)
           = fst (resumable_upload env)"
    and "sleeps (snd (upload env (PyStr p) (PyStr t) (PyStr d) (PySet tg) (PyInt c) ps))
           = sleeps (snd (resumable_upload env))"
proof -
  obtain cr tr where g: "get_creds env OAUTH_FILE = (Some cr, tr)"
    using assms(4) by (cases "get_creds env OAUTH_FILE") auto
  have tr: "sleeps tr = []" using sleeps_get_creds [of env OAUTH_FILE] g by simp
  obtain r tr2 where ru: "resumable_upload env = (r, tr2)" by (cases "resumable_upload env")
  have u: "upload env (PyStr p) (PyStr t) (PyStr d) (PySet tg) (PyInt c) ps =
      (r, FsIsFile p # tr @ [ApiBuild, ApiInsert p \<lparr>snippet_title = t, snippet_description = d,
                               snippet_tags = tg, snippet_categoryId = c,
                               status_privacyStatus = ps\<rparr>] @ tr2)"
    using assms g ru by (simp add: upload_def upload_typed_def)
  show "fst (upload env (PyStr p) (PyStr t) (PyStr d) (PySet tg) (PyInt c) ps)
           = fst (resumable_upload env)" using u ru by simp
  show "sleeps (snd (upload env (PyStr p) (PyStr t) (PyStr d) (PySet tg) (PyInt c) ps))
           = sleeps (snd (resumable_upload env))"
    using u ru tr by (simp add: sleeps_append)
qed



subsection \<open>Claims about \<^verbatim>\<open>upload\<close>\<close>

text \<open>
  Claim C1. The claim: when the arguments pass validation and no valid credential is
  available, \<^verbatim>\<open>upload\<close> fails by raising \<^verbatim>\<open>AuthException\<close> and performs no network call.
  The source has \<^verbatim>\<open>return AuthException(...)\<close> where the docstring promises a raise, so the
  call ends normally and hands the exception object to the caller. The theorem runs
  \<^verbatim>\<open>upload\<close> with an existing file, the default category and privacy status and no OAuth
  file: the outcome is \<open>Inr\<close> (a return) of the exception object, not \<open>Inl\<close> (a raise).
  The effects are the file test and the test for the OAuth file only, so the part of the
  claim about the network does hold.
\<close>

theorem upload_unauthenticated_returns_exception:
  "upload env_no_creds (PyStr ''video.mp4'') (PyStr ''A title'') (PyStr []) (PySet [])
          (PyInt 22) (PyStr ''unlisted'')
     = (Some (Inr (PyExc (AuthException ''Application has not been authenticated yet''))),
        [FsIsFile ''video.mp4'', FsExists OAUTH_FILE])"
  by (simp add: upload_def upload_typed_def get_creds_def env_no_creds_def
        VALID_PRIVACY_STATUSES_def)

text \<open>
  Claim C2, as amended. Let \<^verbatim>\<open>random.random()\<close> return values in \<open>[0, 1)\<close>.
  \<^item> At any point of the upload loop, a transport fault or an HTTP fault with status 500,
    502, 503 or 504 increments the retry counter, which starts at 0, so that it is 1
    after the first fault. If the counter then exceeds 10, the loop raises
    \<^verbatim>\<open>UploadException\<close> with the message \<^verbatim>\<open>No longer attempting to retry\<close>. Otherwise it
    sleeps \<^verbatim>\<open>random.random() * 2 ** retry\<close> seconds, a duration in \<open>[0, 2^retry)\<close>, and
    goes round again with the remaining calls of \<^verbatim>\<open>next_chunk\<close>.
  \<^item> Let the arguments of \<^verbatim>\<open>upload\<close> pass validation, a valid credential be stored and the
    request be built, and let the calls of \<^verbatim>\<open>next_chunk\<close> be in-progress chunks, then the
    faults \<open>fs\<close> of the kind above. If there are at most 10 faults and the next call
    returns a response with an \<^verbatim>\<open>id\<close>, \<^verbatim>\<open>upload\<close> returns that id after exactly one sleep
    per fault, the \<open>i\<close>-th sleep being the \<open>i\<close>-th random draw times \<open>2^i\<close>. If there are
    more than 10 faults, \<^verbatim>\<open>upload\<close> raises at the 11th, after exactly 10 such sleeps.
  The witness has the run of the claim: three HTTP 503 faults, then a response with id
  \<^verbatim>\<open>abc123\<close>; with every random draw equal to one half, \<^verbatim>\<open>upload\<close> returns \<^verbatim>\<open>abc123\<close>
  after the 3 sleeps of 1, 2 and 4 seconds. It also has a run with eleven transport
  faults, and a fault met in the middle of the loop.
  That the draw is uniformly distributed is a property of \<^verbatim>\<open>random.random\<close> and is not
  expressed here.
\<close>

theorem upload_retries_with_backoff:
  assumes rnd: "\<forall>k. 0 \<le> random env k \<and> random env k < 1"
  shows
    "(retriable_fault f \<and> 0 \<le> retry st \<and> retry st < 10 \<longrightarrow>
        upload_loop (random env) fmt st (f # cs) =
          upload_loop (random env) fmt
            (st\<lparr>error := Some (fault_message f), retry := retry st + 1,
                draws := draws st + 1,
                trace := trace st @ [ApiNextChunk, Print (fault_message f),
                  PrintSleeping (random env (draws st) * 2 ^ nat (retry st + 1)),
                  Sleep (random env (draws st) * 2 ^ nat (retry st + 1))]\<rparr>) cs
        \<and> 0 \<le> random env (draws st) * 2 ^ nat (retry st + 1)
        \<and> random env (draws st) * 2 ^ nat (retry st + 1) < 2 ^ nat (retry st + 1))
     \<and> (retriable_fault f \<and> 10 \<le> retry st \<longrightarrow>
        upload_loop (random env) fmt st (f # cs) =
          (Some (Inl (UploadException ''No longer attempting to retry'')),
           st\<lparr>error := Some (fault_message f), retry := retry st + 1,
              trace := trace st @ [ApiNextChunk, Print (fault_message f)]\<rparr>))
     \<and> retry initial_loop_state = 0
     \<and> (isfile env p \<and> 0 < c \<and> ps \<in> set VALID_PRIVACY_STATUSES
          \<and> fst (get_creds env OAUTH_FILE) \<noteq> None
          \<and> build_fault env = None \<and> insert_fault env = None
          \<and> upload env (PyStr p) (PyStr t) (PyStr d) (PySet tg) (PyInt c) ps = (r, tr)
          \<and> (\<forall>c\<in>set pre. c = Chunk None) \<and> (\<forall>f\<in>set fs. retriable_fault f)
          \<and> length fs \<le> 10 \<and> chunks env = pre @ fs @ Chunk (Some resp) # rest
          \<and> map_of resp ''id'' = Some v \<longrightarrow>
        r = Some (Inr v)
        \<and> sleeps tr = map (\<lambda>i. random env i * 2 ^ (i + 1)) [0..<length fs]
        \<and> (\<forall>i<length fs. 0 \<le> sleeps tr ! i \<and> sleeps tr ! i < 2 ^ (i + 1)))
     \<and> (isfile env p \<and> 0 < c \<and> ps \<in> set VALID_PRIVACY_STATUSES
          \<and> fst (get_creds env OAUTH_FILE) \<noteq> None
          \<and> build_fault env = None \<and> insert_fault env = None
          \<and> upload env (PyStr p) (PyStr t) (PyStr d) (PySet tg) (PyInt c) ps = (r, tr)
          \<and> (\<forall>c\<in>set pre. c = Chunk None) \<and> (\<forall>f\<in>set fs. retriable_fault f)
          \<and> 10 < length fs \<and> chunks env = pre @ fs @ rest \<longrightarrow>
        r = Some (Inl (UploadException ''No longer attempting to retry''))
        \<and> sleeps tr = map (\<lambda>i. random env i * 2 ^ (i + 1)) [0..<10]
        \<and> (\<forall>i<10. 0 \<le> sleeps tr ! i \<and> sleeps tr ! i < 2 ^ (i + 1)))"
proof (intro conjI impI)
  assume "retriable_fault f \<and> 0 \<le> retry st \<and> retry st < 10"
  then have f: "retriable_fault f" and lt: "retry st < 10" by simp_all
  show "upload_loop (random env) fmt st (f # cs) =
          upload_loop (random env) fmt
            (st\<lparr>error := Some (fault_message f), retry := retry st + 1,
                draws := draws st + 1,
                trace := trace st @ [ApiNextChunk, Print (fault_message f),
                  PrintSleeping (random env (draws st) * 2 ^ nat (retry st + 1)),
                  Sleep (random env (draws st) * 2 ^ nat (retry st + 1))]\<rparr>) cs"
    by (rule upload_loop_fault_retry [OF f lt])
  show "0 \<le> random env (draws st) * 2 ^ nat (retry st + 1)"
    and "random env (draws st) * 2 ^ nat (retry st + 1) < 2 ^ nat (retry st + 1)"
    using backoff_bounds [OF rnd] by blast+
next
  assume "retriable_fault f \<and> 10 \<le> retry st"
  then have f: "retriable_fault f" and ge: "10 \<le> retry st" by simp_all
  show "upload_loop (random env) fmt st (f # cs) =
          (Some (Inl (UploadException ''No longer attempting to retry'')),
           st\<lparr>error := Some (fault_message f), retry := retry st + 1,
              trace := trace st @ [ApiNextChunk, Print (fault_message f)]\<rparr>)"
    by (rule upload_loop_fault_exhausted [OF f ge])
next
  show "retry initial_loop_state = 0" by (simp add: initial_loop_state_def)
next
  assume a: "isfile env p \<and> 0 < c \<and> ps \<in> set VALID_PRIVACY_STATUSES
          \<and> fst (get_creds env OAUTH_FILE) \<noteq> None
          \<and> build_fault env = None \<and> insert_fault env = None
          \<and> upload env (PyStr p) (PyStr t) (PyStr d) (PySet tg) (PyInt c) ps = (r, tr)
          \<and> (\<forall>c\<in>set pre. c = Chunk None) \<and> (\<forall>f\<in>set fs. retriable_fault f)
          \<and> length fs \<le> 10 \<and> chunks env = pre @ fs @ Chunk (Some resp) # rest
          \<and> map_of resp ''id'' = Some v"
  then have valid: "isfile env p" "0 < c" "ps \<in> set VALID_PRIVACY_STATUSES"
    "fst (get_creds env OAUTH_FILE) \<noteq> None" "build_fault env = None"
    "insert_fault env = None" by simp_all
  from a have run: "upload env (PyStr p) (PyStr t) (PyStr d) (PySet tg) (PyInt c) ps = (r, tr)"
    by simp
  from a have script: "\<forall>c\<in>set pre. c = Chunk None" "\<forall>f\<in>set fs. retriable_fault f"
    "length fs \<le> 10" "map_of resp ''id'' = Some v"
    "chunks env = pre @ fs @ Chunk (Some resp) # rest" by simp_all
  have r: "r = fst (resumable_upload env)"
    and tr: "sleeps tr = sleeps (snd (resumable_upload env))"
    using upload_runs_loop [OF valid, of t d tg] run by simp_all
  show "r = Some (Inr v)"
    using r resumable_upload_recovers(1) [OF script] by simp
  show sl: "sleeps tr = map (\<lambda>i. random env i * 2 ^ (i + 1)) [0..<length fs]"
    using tr resumable_upload_recovers(2) [OF script] by simp
  show "\<forall>i<length fs. 0 \<le> sleeps tr ! i \<and> sleeps tr ! i < 2 ^ (i + 1)"
    using backoff_bounds [OF rnd] by (simp add: sl)
next
  assume a: "isfile env p \<and> 0 < c \<and> ps \<in> set VALID_PRIVACY_STATUSES
          \<and> fst (get_creds env OAUTH_FILE) \<noteq> None
          \<and> build_fault env = None \<and> insert_fault env = None
          \<and> upload env (PyStr p) (PyStr t) (PyStr d) (PySet tg) (PyInt c) ps = (r, tr)
          \<and> (\<forall>c\<in>set pre. c = Chunk None) \<and> (\<forall>f\<in>set fs. retriable_fault f)
          \<and> 10 < length fs \<and> chunks env = pre @ fs @ rest"
  then have valid: "isfile env p" "0 < c" "ps \<in> set VALID_PRIVACY_STATUSES"
    "fst (get_creds env OAUTH_FILE) \<noteq> None" "build_fault env = None"
    "insert_fault env = None" by simp_all
  from a have run: "upload env (PyStr p) (PyStr t) (PyStr d) (PySet tg) (PyInt c) ps = (r, tr)"
    by simp
  from a have script: "\<forall>c\<in>set pre. c = Chunk None" "\<forall>f\<in>set fs. retriable_fault f"
    "10 < length fs" "chunks env = pre @ fs @ rest" by simp_all
  have r: "r = fst (resumable_upload env)"
    and tr: "sleeps tr = sleeps (snd (resumable_upload env))"
    using upload_runs_loop [OF valid, of t d tg] run by simp_all
  show "r = Some (Inl (UploadException ''No longer attempting to retry''))"
    using r resumable_upload_gives_up(1) [OF script] by simp
  show sl: "sleeps tr = map (\<lambda>i. random env i * 2 ^ (i + 1)) [0..<10]"
    using tr resumable_upload_gives_up(2) [OF script] by simp
  show "\<forall>i<10. 0 \<le> sleeps tr ! i \<and> sleeps tr ! i < 2 ^ (i + 1)"
    using backoff_bounds [OF rnd] by (simp add: sl del: upt_Suc)
qed

theorem upload_retries_with_backoff_witness:
  "fst (upload env_503 (PyStr ''video.mp4'') (PyStr ''A title'') (PyStr []) (PySet [])
          (PyInt 22) (PyStr ''unlisted'')) = Some (Inr (PyStr ''abc123''))
   \<and> sleeps (snd (upload env_503 (PyStr ''video.mp4'') (PyStr ''A title'') (PyStr [])
          (PySet []) (PyInt 22) (PyStr ''unlisted''))) = [1, 2, 4]
   \<and> fst (upload env_outage (PyStr ''video.mp4'') (PyStr ''A title'') (PyStr []) (PySet [])
          (PyInt 22) (PyStr ''unlisted''))
       = Some (Inl (UploadException ''No longer attempting to retry''))
   \<and> sleeps (snd (upload env_outage (PyStr ''video.mp4'') (PyStr ''A title'')
          (PyStr []) (PySet []) (PyInt 22) (PyStr ''unlisted'')))
       = [1, 2, 4, 8, 16, 32, 64, 128, 256, 512]
   \<and> upload_loop (random env_503) (fmt_response env_503)
        \<lparr>error = Some ''A retriable error occurred: reset'', retry = 1, draws = 1,
           trace = []\<rparr>
        [HttpError 503 ''busy'']
       = (None,
          \<lparr>error = Some ''A retriable HTTP error 503 occurred: busy'', retry = 2, draws = 2,
             trace = [ApiNextChunk, Print ''A retriable HTTP error 503 occurred: busy'',
                      PrintSleeping 2, Sleep 2]\<rparr>)"
proof -
  let ?U = "upload env_503 (PyStr ''video.mp4'') (PyStr ''A title'') (PyStr []) (PySet [])
          (PyInt 22) (PyStr ''unlisted'')"
  let ?V = "upload env_outage (PyStr ''video.mp4'') (PyStr ''A title'') (PyStr []) (PySet [])
          (PyInt 22) (PyStr ''unlisted'')"
  let ?fs = "[HttpError 503 ''busy'', HttpError 503 ''busy'', HttpError 503 ''busy'']"
  let ?resp = "[(''kind'', PyStr ''youtube#video''), (''id'', PyStr ''abc123'')]"
  let ?gs = "replicate 11 (TransportError ''connection reset'')"
  let ?st = "\<lparr>error = Some ''A retriable error occurred: reset'', retry = 1, draws = 1,
               trace = []\<rparr>"
  have rnd: "\<forall>k. 0 \<le> random env_503 k \<and> random env_503 k < 1"
    "\<forall>k. 0 \<le> random env_outage k \<and> random env_outage k < 1"
    by (simp_all add: env_503_def env_outage_def)
  have half: "random env_503 k = 1 / 2" "random env_outage k = 1 / 2" for k
    by (simp_all add: env_503_def env_outage_def)
  have h1: "isfile env_503 ''video.mp4'' \<and> (0::int) < 22
      \<and> PyStr ''unlisted'' \<in> set VALID_PRIVACY_STATUSES
      \<and> fst (get_creds env_503 OAUTH_FILE) \<noteq> None
      \<and> build_fault env_503 = None \<and> insert_fault env_503 = None
      \<and> ?U = (fst ?U, snd ?U)
      \<and> (\<forall>c\<in>set []. c = Chunk None) \<and> (\<forall>f\<in>set ?fs. retriable_fault f)
      \<and> length ?fs \<le> 10 \<and> chunks env_503 = [] @ ?fs @ Chunk (Some ?resp) # []
      \<and> map_of ?resp ''id'' = Some (PyStr ''abc123'')"
    by (simp add: env_503_def VALID_PRIVACY_STATUSES_def get_creds_def
          RETRIABLE_STATUS_CODES_def)
  have h2: "isfile env_outage ''video.mp4'' \<and> (0::int) < 22
      \<and> PyStr ''unlisted'' \<in> set VALID_PRIVACY_STATUSES
      \<and> fst (get_creds env_outage OAUTH_FILE) \<noteq> None
      \<and> build_fault env_outage = None \<and> insert_fault env_outage = None
      \<and> ?V = (fst ?V, snd ?V)
      \<and> (\<forall>c\<in>set []. c = Chunk None) \<and> (\<forall>f\<in>set ?gs. retriable_fault f)
      \<and> 10 < length ?gs
      \<and> chunks env_outage = [] @ ?gs @ [Chunk (Some [(''id'', PyStr ''abc123'')])]"
    by (simp add: env_503_def env_outage_def VALID_PRIVACY_STATUSES_def get_creds_def)
  have h3: "retriable_fault (HttpError 503 ''busy'') \<and> 0 \<le> retry ?st \<and> retry ?st < 10"
    by (simp add: RETRIABLE_STATUS_CODES_def)
  note inst1 = upload_retries_with_backoff [OF rnd(1), where p = "''video.mp4''" and c = 22
      and ps = "PyStr ''unlisted''" and t = "''A title''" and d = "[]" and tg = "[]"
      and r = "fst ?U" and tr = "snd ?U" and pre = "[]" and fs = ?fs and resp = ?resp
      and rest = "[]" and v = "PyStr ''abc123''" and f = "HttpError 503 ''busy''"
      and st = ?st and cs = "[]" and fmt = "fmt_response env_503"]
  note inst2 = upload_retries_with_backoff [OF rnd(2), where p = "''video.mp4''" and c = 22
      and ps = "PyStr ''unlisted''" and t = "''A title''" and d = "[]" and tg = "[]"
      and r = "fst ?V" and tr = "snd ?V" and pre = "[]" and fs = ?gs
      and rest = "[Chunk (Some [(''id'', PyStr ''abc123'')])]"]
  from inst1 h1 have a: "fst ?U = Some (Inr (PyStr ''abc123''))"
    and "sleeps (snd ?U) = map (\<lambda>i. random env_503 i * 2 ^ (i + 1)) [0..<length ?fs]"
    by blast+
  then have a': "sleeps (snd ?U) = [1, 2, 4]"
    by (simp add: half upt_rec)
  from inst2 h2 have b: "fst ?V = Some (Inl (UploadException ''No longer attempting to retry''))"
    and "sleeps (snd ?V) = map (\<lambda>i. random env_outage i * 2 ^ (i + 1)) [0..<10]"
    by blast+
  then have b': "sleeps (snd ?V) = [1, 2, 4, 8, 16, 32, 64, 128, 256, 512]"
    by (simp add: half upt_rec)
  from inst1 h3 have "upload_loop (random env_503) (fmt_response env_503) ?st
        [HttpError 503 ''busy'']
      = upload_loop (random env_503) (fmt_response env_503)
          (?st\<lparr>error := Some (fault_message (HttpError 503 ''busy'')),
               retry := retry ?st + 1, draws := draws ?st + 1,
               trace := trace ?st @ [ApiNextChunk, Print (fault_message (HttpError 503 ''busy'')),
                  PrintSleeping (random env_503 (draws ?st) * 2 ^ nat (retry ?st + 1)),
                  Sleep (random env_503 (draws ?st) * 2 ^ nat (retry ?st + 1))]\<rparr>) []"
    by blast
  then have c: "upload_loop (random env_503) (fmt_response env_503) ?st [HttpError 503 ''busy'']
       = (None,
          \<lparr>error = Some ''A retriable HTTP error 503 occurred: busy'', retry = 2, draws = 2,
             trace = [ApiNextChunk, Print ''A retriable HTTP error 503 occurred: busy'',
                      PrintSleeping 2, Sleep 2]\<rparr>)"
    by (simp add: half str_int_def str_nat.simps digit_char_def del: upload_loop.simps(2))
  from a a' b b' c show ?thesis by blast
qed

text \<open>
  Claim C2, as stated, fails in the message of the exception: after eleven transport
  faults \<^verbatim>\<open>upload\<close> raises \<^verbatim>\<open>UploadException\<close> with the message
  \<^verbatim>\<open>No longer attempting to retry\<close>, not \<^verbatim>\<open>retries exhausted\<close>.
\<close>

theorem upload_exhausted_message:
  "fst (upload env_outage (PyStr ''video.mp4'') (PyStr ''A title'') (PyStr []) (PySet [])
          (PyInt 22) (PyStr ''unlisted''))
     = Some (Inl (UploadException ''No longer attempting to retry''))
   \<and> fst (upload env_outage (PyStr ''video.mp4'') (PyStr ''A title'') (PyStr []) (PySet [])
          (PyInt 22) (PyStr ''unlisted''))
       \<noteq> Some (Inl (UploadException ''retries exhausted''))"
proof -
  have valid: "isfile env_outage ''video.mp4''" "(0::int) < 22"
    "PyStr ''unlisted'' \<in> set VALID_PRIVACY_STATUSES"
    "fst (get_creds env_outage OAUTH_FILE) \<noteq> None"
    "build_fault env_outage = None" "insert_fault env_outage = None"
    by (simp_all add: env_503_def env_outage_def VALID_PRIVACY_STATUSES_def get_creds_def)
  have script: "\<forall>c\<in>set []. c = Chunk None"
    "\<forall>f\<in>set (replicate 11 (TransportError ''connection reset'')). retriable_fault f"
    "10 < length (replicate 11 (TransportError ''connection reset''))"
    "chunks env_outage = [] @ replicate 11 (TransportError ''connection reset'')
                         @ [Chunk (Some [(''id'', PyStr ''abc123'')])]"
    by (simp_all add: env_503_def env_outage_def)
  have "fst (upload env_outage (PyStr ''video.mp4'') (PyStr ''A title'') (PyStr [])
          (PySet []) (PyInt 22) (PyStr ''unlisted''))
     = Some (Inl (UploadException ''No longer attempting to retry''))"
    using upload_runs_loop(1) [OF valid] resumable_upload_gives_up(1) [OF script] by simp
  then show ?thesis by simp
qed

text \<open>
  Claim C7. For arguments of the checked types, \<^verbatim>\<open>upload\<close> validates in this order:
  the path is an existing regular file, then the category is greater than 0, then the
  privacy status is one of \<^verbatim>\<open>public\<close>, \<^verbatim>\<open>private\<close>, \<^verbatim>\<open>unlisted\<close>. The first violated
  check raises \<^verbatim>\<open>ValueError\<close> with a message that cites the path, respectively names
  \<^verbatim>\<open>category\<close> or \<^verbatim>\<open>privacy_status\<close>, and the call has then made neither a credential
  check nor a call into the API client. The witness: a nonexistent path together with
  category 0 fails citing the path; with an existing file, category 0 together with an
  unknown privacy status fails naming the category; and an unknown privacy status alone
  fails naming the privacy status.
\<close>

theorem upload_validation_order:
  assumes "upload env (PyStr p) (PyStr t) (PyStr d) (PySet tg) (PyInt c) ps = (r, tr)"
  shows "(\<not> isfile env p \<longrightarrow>
            r = Some (Inl (ValueError (''\"'' @ p @ ''\" is not a file''))))
       \<and> (isfile env p \<and> c \<le> 0 \<longrightarrow>
            r = Some (Inl (ValueError ''category must be greater than 0'')))
       \<and> (isfile env p \<and> 0 < c
            \<and> ps \<notin> {PyStr ''public'', PyStr ''private'', PyStr ''unlisted''} \<longrightarrow>
            r = Some (Inl (ValueError
                  ''privacy_status must be either \"public\", \"private\", or \"unlisted\"'')))
       \<and> (\<not> isfile env p \<or> c \<le> 0
            \<or> ps \<notin> {PyStr ''public'', PyStr ''private'', PyStr ''unlisted''} \<longrightarrow>
            filter is_credential_check tr = [] \<and> filter is_network tr = [])"
  using assms
  by (auto simp: upload_well_typed upload_typed_def VALID_PRIVACY_STATUSES_def
           split: if_splits)

theorem upload_validation_order_witness:
  "fst (upload env_no_creds (PyStr ''missing.mp4'') (PyStr ''A title'') (PyStr []) (PySet [])
          (PyInt 0) (PyStr ''unlisted''))
     = Some (Inl (ValueError ''\"missing.mp4\" is not a file''))
   \<and> filter is_credential_check
       (snd (upload env_no_creds (PyStr ''missing.mp4'') (PyStr ''A title'') (PyStr [])
          (PySet []) (PyInt 0) (PyStr ''unlisted''))) = []
   \<and> fst (upload env_no_creds (PyStr ''video.mp4'') (PyStr ''A title'') (PyStr []) (PySet [])
          (PyInt 0) (PyStr ''hidden''))
       = Some (Inl (ValueError ''category must be greater than 0''))
   \<and> fst (upload env_no_creds (PyStr ''video.mp4'') (PyStr ''A title'') (PyStr []) (PySet [])
          (PyInt 22) (PyStr ''hidden''))
       = Some (Inl (ValueError
            ''privacy_status must be either \"public\", \"private\", or \"unlisted\"''))"
proof -
  let ?U = "upload env_no_creds (PyStr ''missing.mp4'') (PyStr ''A title'') (PyStr [])
              (PySet []) (PyInt 0) (PyStr ''unlisted'')"
  let ?V = "upload env_no_creds (PyStr ''video.mp4'') (PyStr ''A title'') (PyStr [])
              (PySet []) (PyInt 0) (PyStr ''hidden'')"
  let ?W = "upload env_no_creds (PyStr ''video.mp4'') (PyStr ''A title'') (PyStr [])
              (PySet []) (PyInt 22) (PyStr ''hidden'')"
  have run: "?U = (fst ?U, snd ?U)" "?V = (fst ?V, snd ?V)" "?W = (fst ?W, snd ?W)"
    by simp_all
  have missing: "\<not> isfile env_no_creds ''missing.mp4''" by (simp add: env_no_creds_def)
  have present: "isfile env_no_creds ''video.mp4''" by (simp add: env_no_creds_def)
  have hidden: "PyStr ''hidden'' \<notin> {PyStr ''public'', PyStr ''private'', PyStr ''unlisted''}"
    by simp
  from upload_validation_order [OF run(1)] missing
  have a: "fst ?U = Some (Inl (ValueError ''\"missing.mp4\" is not a file''))"
    "filter is_credential_check (snd ?U) = []"
    by simp_all
  from upload_validation_order [OF run(2)] present
  have b: "fst ?V = Some (Inl (ValueError ''category must be greater than 0''))"
    by simp
  from upload_validation_order [OF run(3)] present hidden
  have c: "fst ?W = Some (Inl (ValueError
            ''privacy_status must be either \"public\", \"private\", or \"unlisted\"''))"
    by simp
  from a b c show ?thesis by blast
qed

text \<open>
  Claim C10. \<^verbatim>\<open>upload\<close> checks the types of its arguments before anything else: when
  \<^verbatim>\<open>path\<close>, \<^verbatim>\<open>title\<close> or \<^verbatim>\<open>desc\<close> is not a \<^verbatim>\<open>str\<close>, \<^verbatim>\<open>tags\<close> is not a \<^verbatim>\<open>set\<close> or \<^verbatim>\<open>category\<close>
  is not an \<^verbatim>\<open>int\<close>, it raises \<^verbatim>\<open>TypeError\<close> for the first such argument, and it has then
  had no effect at all: no file test, no credential check, no call into the API client.
  The witness: a category that is a \<^verbatim>\<open>str\<close> raises \<^verbatim>\<open>TypeError\<close> although the path does
  not exist.
\<close>

theorem upload_type_error:
  assumes "\<not> is_str path \<or> \<not> is_str title \<or> \<not> is_str desc \<or> \<not> is_set tags \<or> \<not> is_int category"
  shows "upload env path title desc tags category ps =
     (Some (Inl (TypeError
        (if \<not> is_str path then ''path must be of type str''
         else if \<not> is_str title then ''title must be of type str''
         else if \<not> is_str desc then ''desc must be of type str''
         else if \<not> is_set tags then ''tags must be of type set''
         else ''category must be of type int''))), [])"
proof (cases "is_str path")
  case False
  then show ?thesis by (simp add: upload_bad_path)
next
  case p: True
  then obtain p' where [simp]: "path = PyStr p'" by (auto simp: is_str_iff)
  show ?thesis
  proof (cases "is_str title")
    case False
    then show ?thesis by (simp add: upload_bad_title)
  next
    case True
    then obtain t' where [simp]: "title = PyStr t'" by (auto simp: is_str_iff)
    show ?thesis
    proof (cases "is_str desc")
      case False
      then show ?thesis by (simp add: upload_bad_desc)
    next
      case True
      then obtain d' where [simp]: "desc = PyStr d'" by (auto simp: is_str_iff)
      show ?thesis
      proof (cases "is_set tags")
        case False
        then show ?thesis by (simp add: upload_bad_tags)
      next
        case True
        then obtain tg' where [simp]: "tags = PySet tg'" by (auto simp: is_set_iff)
        from assms have "\<not> is_int category" by simp
        then show ?thesis by (simp add: upload_bad_category)
      qed
    qed
  qed
qed

theorem upload_type_error_witness:
  "\<not> isfile env_no_creds ''missing.mp4'' \<and>
   upload env_no_creds (PyStr ''missing.mp4'') (PyStr ''title'') (PyStr []) (PySet []) (PyStr ''22'') (PyStr ''unlisted'')
   = (Some (Inl (TypeError ''category must be of type int'')), [])"
  using upload_type_error [of "PyStr ''missing.mp4''" "PyStr ''title''" "PyStr []" "PySet []" "PyStr ''22''"]
  by (simp add: env_no_creds_def)

section \<open>Properties of the reader\<close>

subsection \<open>Comment chains\<close>

lemma chain_length_no_child: "rc_child c = None \<Longrightarrow> chain_length c = 0"
  by (cases c) simp

lemma chain_length_set_child:
  "chain_length (set_rc_child c (Some ch)) = Suc (chain_length ch)"
  by (cases c) simp

lemma rc_child_from_praw: "rc_child (from_praw p) = None"
  by (simp add: from_praw_def)

lemma expand_comment_length:
  "rc_child comment = None \<Longrightarrow> chain_length (expand_comment comment p d t) \<le> nat d"
proof (induction comment p d t rule: expand_comment.induct)
  case (1 comment praw_comment max_depth percent_thres)
  show ?case
  proof (cases "max_depth \<le> 0")
    case True
    with "1.prems" show ?thesis
      by (simp add: expand_comment.simps [of comment] chain_length_no_child)
  next
    case False
    show ?thesis
    proof (cases "best_reply_loop None (pc_replies praw_comment)")
      case None
      with False "1.prems" show ?thesis
        by (simp add: expand_comment.simps [of comment] chain_length_no_child)
    next
      case (Some b)
      show ?thesis
      proof (cases "real_of_int (pc_score b) > real_of_int (rc_score comment) * percent_thres")
        case True
        from "1.IH" [OF False Some True rc_child_from_praw]
        have "chain_length (expand_comment (from_praw b) b (max_depth - 1) percent_thres)
                \<le> nat (max_depth - 1)" .
        with False Some True show ?thesis
          by (simp add: expand_comment.simps [of comment] chain_length_set_child)
      next
        case no: False
        with False Some "1.prems" show ?thesis
          by (simp add: expand_comment.simps [of comment] chain_length_no_child)
      qed
    qed
  qed
qed

lemma expand_comment_fields:
  "rc_author (expand_comment comment p d t) = rc_author comment \<and>
   rc_text (expand_comment comment p d t) = rc_text comment \<and>
   rc_score (expand_comment comment p d t) = rc_score comment"
  by (cases comment) (simp add: expand_comment.simps [of _ p d t] split: option.splits)

lemma chain_justified_no_child: "rc_child c = None \<Longrightarrow> chain_justified t c p"
  by (cases c) simp

lemma chain_justified_set_child:
  "chain_justified t (set_rc_child c (Some ch)) p =
     (case best_reply_loop None (pc_replies p) of
        None \<Rightarrow> False
      | Some b \<Rightarrow>
          real_of_int (pc_score b) > real_of_int (rc_score c) * t \<and>
          rc_author ch = pc_author b \<and> rc_text ch = pc_body b \<and> rc_score ch = pc_score b \<and>
          chain_justified t ch b)"
  by (cases c) (simp split: option.splits)

lemma expand_comment_justified:
  "rc_child comment = None \<Longrightarrow> chain_justified t (expand_comment comment p d t) p"
proof (induction comment p d t rule: expand_comment.induct)
  case (1 comment praw_comment max_depth percent_thres)
  show ?case
  proof (cases "max_depth \<le> 0")
    case True
    with "1.prems" show ?thesis
      by (simp add: expand_comment.simps [of comment] chain_justified_no_child)
  next
    case False
    show ?thesis
    proof (cases "best_reply_loop None (pc_replies praw_comment)")
      case None
      with False "1.prems" show ?thesis
        by (simp add: expand_comment.simps [of comment] chain_justified_no_child)
    next
      case (Some b)
      show ?thesis
      proof (cases "real_of_int (pc_score b) > real_of_int (rc_score comment) * percent_thres")
        case True
        from "1.IH" [OF False Some True rc_child_from_praw]
        have "chain_justified percent_thres
                (expand_comment (from_praw b) b (max_depth - 1) percent_thres) b" .
        moreover have "rc_author (expand_comment (from_praw b) b (max_depth - 1) percent_thres)
                         = pc_author b"
          "rc_text (expand_comment (from_praw b) b (max_depth - 1) percent_thres) = pc_body b"
          "rc_score (expand_comment (from_praw b) b (max_depth - 1) percent_thres) = pc_score b"
          by (simp_all add: expand_comment_fields from_praw_def)
        ultimately show ?thesis using False Some True
          by (simp add: expand_comment.simps [of comment] chain_justified_set_child)
      next
        case no: False
        with False Some "1.prems" show ?thesis
          by (simp add: expand_comment.simps [of comment] chain_justified_no_child)
      qed
    qed
  qed
qed

lemma best_reply_loop_Some:
  "best_reply_loop (Some b0) rs = Some b \<Longrightarrow>
     (b = b0 \<and> (\<forall>r\<in>set (filter is_comment rs). pc_score r \<le> pc_score b0))
   \<or> (\<exists>pre post. filter is_comment rs = pre @ b # post \<and>
         pc_score b0 < pc_score b \<and>
         (\<forall>r\<in>set pre. pc_score r < pc_score b) \<and>
         (\<forall>r\<in>set post. pc_score r \<le> pc_score b))"
proof (induction rs arbitrary: b0)
  case Nil
  then show ?case by simp
next
  case (Cons reply rs)
  show ?case
  proof (cases "is_comment reply")
    case False
    with Cons show ?thesis by simp
  next
    case True
    show ?thesis
    proof (cases "pc_score reply > pc_score b0")
      case gt: True
      with True Cons.prems have "best_reply_loop (Some reply) rs = Some b" by simp
      from Cons.IH [OF this] show ?thesis
      proof
        assume a: "b = reply \<and> (\<forall>r\<in>set (filter is_comment rs). pc_score r \<le> pc_score reply)"
        then have "filter is_comment (reply # rs) = [] @ b # filter is_comment rs"
          using True by simp
        with a gt show ?thesis by (intro disjI2 exI [of _ "[]"] exI [of _ "filter is_comment rs"]) simp
      next
        assume "\<exists>pre post. filter is_comment rs = pre @ b # post \<and>
                 pc_score reply < pc_score b \<and>
                 (\<forall>r\<in>set pre. pc_score r < pc_score b) \<and>
                 (\<forall>r\<in>set post. pc_score r \<le> pc_score b)"
        then obtain pre post where pp: "filter is_comment rs = pre @ b # post"
          "pc_score reply < pc_score b" "\<forall>r\<in>set pre. pc_score r < pc_score b"
          "\<forall>r\<in>set post. pc_score r \<le> pc_score b" by blast
        then have "filter is_comment (reply # rs) = (reply # pre) @ b # post"
          using True by simp
        with pp gt show ?thesis
          by (intro disjI2 exI [of _ "reply # pre"] exI [of _ post]) auto
      qed
    next
      case le: False
      with True Cons.prems have "best_reply_loop (Some b0) rs = Some b" by simp
      from Cons.IH [OF this] show ?thesis
      proof
        assume "b = b0 \<and> (\<forall>r\<in>set (filter is_comment rs). pc_score r \<le> pc_score b0)"
        with le True show ?thesis by auto
      next
        assume "\<exists>pre post. filter is_comment rs = pre @ b # post \<and>
                 pc_score b0 < pc_score b \<and>
                 (\<forall>r\<in>set pre. pc_score r < pc_score b) \<and>
                 (\<forall>r\<in>set post. pc_score r \<le> pc_score b)"
        then obtain pre post where pp: "filter is_comment rs = pre @ b # post"
          "pc_score b0 < pc_score b" "\<forall>r\<in>set pre. pc_score r < pc_score b"
          "\<forall>r\<in>set post. pc_score r \<le> pc_score b" by blast
        then have "filter is_comment (reply # rs) = (reply # pre) @ b # post"
          using True by simp
        with pp le show ?thesis
          by (intro disjI2 exI [of _ "reply # pre"] exI [of _ post]) auto
      qed
    qed
  qed
qed

lemma best_reply_loop_acc_Some: "\<exists>b. best_reply_loop (Some b0) rs = Some b"
  by (induction rs arbitrary: b0) auto

lemma best_reply_first_maximum:
  "best_reply_loop None rs = Some b \<Longrightarrow>
     \<exists>pre post. filter is_comment rs = pre @ b # post \<and>
         (\<forall>r\<in>set pre. pc_score r < pc_score b) \<and>
         (\<forall>r\<in>set post. pc_score r \<le> pc_score b)"
proof (induction rs)
  case Nil
  then show ?case by simp
next
  case (Cons reply rs)
  show ?case
  proof (cases "is_comment reply")
    case False
    with Cons show ?thesis by simp
  next
    case True
    with Cons.prems have "best_reply_loop (Some reply) rs = Some b" by simp
    from best_reply_loop_Some [OF this] show ?thesis
    proof
      assume a: "b = reply \<and> (\<forall>r\<in>set (filter is_comment rs). pc_score r \<le> pc_score reply)"
      then have "filter is_comment (reply # rs) = [] @ b # filter is_comment rs"
        using True by simp
      with a show ?thesis by (intro exI [of _ "[]"] exI [of _ "filter is_comment rs"]) simp
    next
      assume "\<exists>pre post. filter is_comment rs = pre @ b # post \<and>
                 pc_score reply < pc_score b \<and>
                 (\<forall>r\<in>set pre. pc_score r < pc_score b) \<and>
                 (\<forall>r\<in>set post. pc_score r \<le> pc_score b)"
      then obtain pre post where pp: "filter is_comment rs = pre @ b # post"
        "pc_score reply < pc_score b" "\<forall>r\<in>set pre. pc_score r < pc_score b"
        "\<forall>r\<in>set post. pc_score r \<le> pc_score b" by blast
      then have "filter is_comment (reply # rs) = (reply # pre) @ b # post"
        using True by simp
      with pp show ?thesis
        by (intro exI [of _ "reply # pre"] exI [of _ post]) auto
    qed
  qed
qed

lemma best_reply_none_iff:
  "best_reply_loop None rs = None \<longleftrightarrow> filter is_comment rs = []"
proof (induction rs)
  case Nil
  show ?case by simp
next
  case (Cons reply rs)
  then show ?case using best_reply_loop_acc_Some [of reply rs] by auto
qed

lemma select_comments_length:
  assumes "\<forall>c\<in>set acc. chain_length c \<le> nat d"
  shows "\<forall>c\<in>set (select_comments acc ps d t). chain_length c \<le> nat d"
  using assms
proof (induction ps arbitrary: acc)
  case Nil
  then show ?case by simp
next
  case (Cons p ps)
  have "chain_length (expand_comment (from_praw p) p d t) \<le> nat d"
    by (rule expand_comment_length [OF rc_child_from_praw])
  with Cons.prems have
    "\<forall>c\<in>set (acc @ [expand_comment (from_praw p) p d t]). chain_length c \<le> nat d"
    by simp
  from Cons.IH [OF this] Cons.IH [OF Cons.prems] show ?case
    by (simp add: Let_def)
qed


text \<open>
  Claim C4. Let \<^verbatim>\<open>_expand_comment\<close> be called on a comment without a child, as it always
  is. The call terminates (the function is total, its recursion decreasing \<^verbatim>\<open>max_depth\<close>)
  and leaves at most \<^verbatim>\<open>max_depth\<close> chained children below the comment. Every child in the
  chain is made from the reply selected among the direct replies of its parent, and the
  score of that reply strictly exceeds the parent's score times the threshold
  (\<open>chain_justified\<close>). The selected reply is the first of the direct replies that are
  comments whose score is highest: the replies before it have strictly lower scores, those
  after it have lower or equal scores; no reply is selected exactly when no direct reply
  is a comment. The same bound on the chain holds for every comment that \<^verbatim>\<open>get_comments\<close>
  returns.
\<close>

theorem expand_comment_chain:
  assumes "rc_child comment = None"
  shows "chain_length (expand_comment comment praw_comment max_depth thres) \<le> nat max_depth
       \<and> chain_justified thres (expand_comment comment praw_comment max_depth thres) praw_comment
       \<and> (\<forall>b. best_reply_loop None rs = Some b \<longrightarrow>
            (\<exists>pre post. filter is_comment rs = pre @ b # post \<and>
               (\<forall>r\<in>set pre. pc_score r < pc_score b) \<and>
               (\<forall>r\<in>set post. pc_score r \<le> pc_score b)))
       \<and> (best_reply_loop None rs = None \<longleftrightarrow> filter is_comment rs = [])
       \<and> (\<forall>c\<in>set (get_comments art max_comments max_depth thres).
            chain_length c \<le> nat (max 0 max_depth))"
proof -
  have "\<forall>c\<in>set (select_comments [] ps (max 0 max_depth) (max 0 thres)).
          chain_length c \<le> nat (max 0 max_depth)" for ps
    by (rule select_comments_length) simp
  then have "\<forall>c\<in>set (get_comments art max_comments max_depth thres).
            chain_length c \<le> nat (max 0 max_depth)"
    by (simp add: get_comments_def Let_def)
  with expand_comment_length [OF assms] expand_comment_justified [OF assms]
    best_reply_first_maximum best_reply_none_iff
  show ?thesis by blast
qed

theorem expand_comment_chain_witness:
  "rc_child (from_praw example_thread) = None
   \<and> expand_comment (from_praw example_thread) example_thread 2 (1 / 2) =
       RedditComment (Some ''alice'') ''top'' 10
         (Some (RedditComment (Some ''bob'') ''first reply'' 6
            (Some (RedditComment (Some ''dave'') ''nested'' 4 None))))
   \<and> chain_length (expand_comment (from_praw example_thread) example_thread 2 (1 / 2)) \<le> nat 2
   \<and> best_reply_loop None (pc_replies example_thread) =
       Some (Comment (Some ''bob'') ''first reply'' 6
          [Comment (Some ''dave'') ''nested'' 4
             [Comment (Some ''erin'') ''too deep'' 100 []]])"
proof -
  have h: "rc_child (from_praw example_thread) = None" by (simp add: from_praw_def)
  have e: "expand_comment (from_praw example_thread) example_thread 2 (1 / 2) =
       RedditComment (Some ''alice'') ''top'' 10
         (Some (RedditComment (Some ''bob'') ''first reply'' 6
            (Some (RedditComment (Some ''dave'') ''nested'' 4 None))))"
    by (simp add: expand_comment.simps example_thread_def from_praw_def)
  have b: "best_reply_loop None (pc_replies example_thread) =
       Some (Comment (Some ''bob'') ''first reply'' 6
          [Comment (Some ''dave'') ''nested'' 4
             [Comment (Some ''erin'') ''too deep'' 100 []]])"
    by (simp add: example_thread_def)
  have c: "chain_length (expand_comment (from_praw example_thread) example_thread 2 (1 / 2))
             \<le> nat 2"
    using expand_comment_chain [OF h, of example_thread 2 "1 / 2"] by blast
  from h e c b show ?thesis by blast
qed

subsection \<open>Listings\<close>

lemma filter_loop_sound:
  assumes "filter_loop clk min_score min_age acc t arts = (res, t')"
  shows "t \<le> t' \<and>
     (\<forall>a\<in>set res. a \<in> set acc \<or>
        (a \<in> set arts \<and> (\<forall>m. min_score = Some m \<longrightarrow> m \<le> art_score a) \<and>
         (\<forall>m. min_age = Some m \<longrightarrow> (\<exists>k. t \<le> k \<and> k < t' \<and> m \<le> age (clk k) a))))"
  using assms
proof (induction arts arbitrary: acc t)
  case Nil
  then show ?case by simp
next
  case (Cons art arts)
  show ?case
  proof (cases "case min_score of None \<Rightarrow> False | Some m \<Rightarrow> art_score art < m")
    case True
    with Cons.prems have "filter_loop clk min_score min_age acc t arts = (res, t')" by simp
    from Cons.IH [OF this] show ?thesis by auto
  next
    case score_ok: False
    then have sc: "\<forall>m. min_score = Some m \<longrightarrow> m \<le> art_score art"
      by (auto split: option.splits)
    show ?thesis
    proof (cases min_age)
      case None
      with score_ok Cons.prems
      have "filter_loop clk min_score min_age (acc @ [art]) t arts = (res, t')" by simp
      from Cons.IH [OF this] sc None show ?thesis by auto
    next
      case (Some m)
      show ?thesis
      proof (cases "age (clk t) art < m")
        case True
        with score_ok Some Cons.prems
        have "filter_loop clk min_score min_age acc (t + 1) arts = (res, t')" by simp
        from Cons.IH [OF this] show ?thesis
          by (auto simp: Some) (metis Suc_leD)+
      next
        case False
        with score_ok Some Cons.prems
        have "filter_loop clk min_score min_age (acc @ [art]) (t + 1) arts = (res, t')" by simp
        from Cons.IH [OF this] have le: "t + 1 \<le> t'"
          and rest: "\<forall>a\<in>set res. a \<in> set (acc @ [art]) \<or>
            (a \<in> set arts \<and> (\<forall>m. min_score = Some m \<longrightarrow> m \<le> art_score a) \<and>
             (\<forall>m. min_age = Some m \<longrightarrow> (\<exists>k. t + 1 \<le> k \<and> k < t' \<and> m \<le> age (clk k) a)))"
          by simp_all
        have here: "\<exists>k. t \<le> k \<and> k < t' \<and> m \<le> age (clk k) art"
          using False le by (intro exI [of _ t]) simp
        show ?thesis
        proof (intro conjI ballI)
          show "t \<le> t'" using le by simp
        next
          fix a assume "a \<in> set res"
          with rest have "a \<in> set (acc @ [art]) \<or>
            (a \<in> set arts \<and> (\<forall>m. min_score = Some m \<longrightarrow> m \<le> art_score a) \<and>
             (\<forall>m. min_age = Some m \<longrightarrow> (\<exists>k. t + 1 \<le> k \<and> k < t' \<and> m \<le> age (clk k) a)))"
            by blast
          then show "a \<in> set acc \<or>
            (a \<in> set (art # arts) \<and> (\<forall>m. min_score = Some m \<longrightarrow> m \<le> art_score a) \<and>
             (\<forall>m. min_age = Some m \<longrightarrow> (\<exists>k. t \<le> k \<and> k < t' \<and> m \<le> age (clk k) a)))"
            using sc here Some by (auto dest: Suc_leD)
        qed
      qed
    qed
  qed
qed

lemma age_mono: "c1 \<le> c2 \<Longrightarrow> age c1 a \<le> age c2 a"
  by (simp add: age_def divide_right_mono)

lemma sort_by_score_desc_set: "set (sort_by_score_desc f xs) = set xs"
  by (simp add: sort_by_score_desc_def)

lemma sort_by_score_desc_sorted:
  assumes "i < j" "j < length (sort_by_score_desc f xs)"
  shows "f (sort_by_score_desc f xs ! j) \<le> f (sort_by_score_desc f xs ! i)"
proof -
  let ?ys = "sort_by_score_desc f xs"
  have "sorted (map (\<lambda>x. - f x) ?ys)"
    by (simp add: sort_by_score_desc_def)
  moreover have "i \<le> j" "j < length (map (\<lambda>x. - f x) ?ys)" using assms by simp_all
  ultimately have "map (\<lambda>x. - f x) ?ys ! i \<le> map (\<lambda>x. - f x) ?ys ! j"
    by (rule sorted_nth_mono)
  then show ?thesis using assms by simp
qed

lemma sort_by_score_desc_stable:
  "filter (\<lambda>x. f x = s) (sort_by_score_desc f xs) = filter (\<lambda>x. f x = s) xs"
proof -
  have "filter (\<lambda>x. - f x = - s) (sort_key (\<lambda>x. - f x) xs) = filter (\<lambda>x. - f x = - s) xs"
    by (rule sort_key_stable)
  then show ?thesis by (simp add: sort_by_score_desc_def)
qed


lemma listing_sound:
  assumes "listing env t call fetched min_score min_age = (Inr res, evs, t')"
  shows "\<exists>raw filtered. fetched = ApiOk raw
       \<and> filter_articles (clock env) t (map RedditArticle raw) min_score min_age = (filtered, t')
       \<and> res = sort_by_score_desc art_score filtered"
  using assms
  by (auto simp: listing_def Let_def split: api_result.splits prod.splits)

lemma art_score_submission_of:
  "art_score (RedditArticle (submission_of i s c m)) = s"
  by (simp add: RedditArticle_def submission_of_def)

lemma age_submission_of:
  "age now (RedditArticle (submission_of i s c m)) = (now - c) / 3600"
  by (simp add: age_def RedditArticle_def submission_of_def)

text \<open>
  Claim C3. Let \<^verbatim>\<open>get_hot_articles\<close> or \<^verbatim>\<open>get_top_articles\<close> return the listing \<open>res\<close>, the
  call starting at clock reading \<open>t\<close> and ending at \<open>t'\<close>.
  \<^item> When \<^verbatim>\<open>min_score\<close> is given, no article of \<open>res\<close> has a lower score.
  \<^item> When \<^verbatim>\<open>min_age\<close> is given, every article of \<open>res\<close> had at least that age at the
    clock reading of the call at which its age was tested; and if the clock never runs
    backwards, it has at least that age at every later reading.
  \<^item> The scores of \<open>res\<close> are non-increasing along the list.
  \<^item> Articles of equal score are in \<open>res\<close> in the order in which the filtering pass over
    the fetched submissions left them.
\<close>

theorem listing_filtered_and_sorted:
  assumes "get_hot_articles env t subreddit limit min_score min_age = (Inr res, evs, t')
         \<or> get_top_articles env t subreddit time_filter limit min_score min_age = (Inr res, evs, t')"
  shows "(\<forall>m. min_score = Some m \<longrightarrow> (\<forall>a\<in>set res. \<not> art_score a < m))
       \<and> (\<forall>m. min_age = Some m \<longrightarrow>
            (\<forall>a\<in>set res. \<exists>k. t \<le> k \<and> k < t' \<and> \<not> age (clock env k) a < m))
       \<and> ((\<forall>i j. i \<le> j \<longrightarrow> clock env i \<le> clock env j) \<longrightarrow>
            (\<forall>m. min_age = Some m \<longrightarrow>
               (\<forall>a\<in>set res. \<forall>k. t' \<le> k \<longrightarrow> \<not> age (clock env k) a < m)))
       \<and> (\<forall>i j. i < j \<and> j < length res \<longrightarrow> art_score (res ! j) \<le> art_score (res ! i))
       \<and> (\<exists>raw filtered.
            (api_hot env subreddit (norm_limit limit) = ApiOk raw
               \<or> api_top env subreddit time_filter (norm_limit limit) = ApiOk raw)
            \<and> filter_articles (clock env) t (map RedditArticle raw) min_score min_age
                = (filtered, t')
            \<and> (\<forall>s. filter (\<lambda>a. art_score a = s) res = filter (\<lambda>a. art_score a = s) filtered))"
proof -
  from assms obtain call fetched where
    l: "listing env t call fetched min_score min_age = (Inr res, evs, t')"
    and f: "fetched = api_hot env subreddit (norm_limit limit)
          \<or> fetched = api_top env subreddit time_filter (norm_limit limit)"
    by (auto simp: get_hot_articles_def get_top_articles_def Let_def split: if_splits)
  from listing_sound [OF l] obtain raw filtered where
    raw: "fetched = ApiOk raw"
    and fa: "filter_articles (clock env) t (map RedditArticle raw) min_score min_age
               = (filtered, t')"
    and res: "res = sort_by_score_desc art_score filtered" by blast
  from fa have fl: "filter_loop (clock env) min_score min_age [] t (map RedditArticle raw)
               = (filtered, t')" by (simp add: filter_articles_def)
  have set_res: "set res = set filtered" by (simp add: res sort_by_score_desc_set)
  from filter_loop_sound [OF fl] have
    sc: "\<forall>a\<in>set res. \<forall>m. min_score = Some m \<longrightarrow> m \<le> art_score a"
    and ag: "\<forall>a\<in>set res. \<forall>m. min_age = Some m \<longrightarrow>
               (\<exists>k. t \<le> k \<and> k < t' \<and> m \<le> age (clock env k) a)"
    unfolding set_res by simp_all
  have c1: "\<forall>m. min_score = Some m \<longrightarrow> (\<forall>a\<in>set res. \<not> art_score a < m)"
    using sc by (simp add: not_less)
  have c2: "\<forall>m. min_age = Some m \<longrightarrow>
            (\<forall>a\<in>set res. \<exists>k. t \<le> k \<and> k < t' \<and> \<not> age (clock env k) a < m)"
    using ag by (simp add: not_less)
  have c3: "\<forall>m. min_age = Some m \<longrightarrow>
               (\<forall>a\<in>set res. \<forall>k. t' \<le> k \<longrightarrow> \<not> age (clock env k) a < m)"
    if mono: "\<forall>i j. i \<le> j \<longrightarrow> clock env i \<le> clock env j"
  proof (intro allI impI ballI)
    fix m a k
    assume m: "min_age = Some m" and a: "a \<in> set res" and k: "t' \<le> k"
    from ag a m obtain k0 where k0: "k0 < t'" "m \<le> age (clock env k0) a" by blast
    from k0(1) k have "k0 \<le> k" by simp
    with mono have "clock env k0 \<le> clock env k" by blast
    from age_mono [OF this] k0(2) show "\<not> age (clock env k) a < m"
      by (simp add: not_less order_trans)
  qed
  have c4: "\<forall>i j. i < j \<and> j < length res \<longrightarrow> art_score (res ! j) \<le> art_score (res ! i)"
    unfolding res using sort_by_score_desc_sorted by blast
  have c5: "\<forall>s. filter (\<lambda>a. art_score a = s) res = filter (\<lambda>a. art_score a = s) filtered"
    unfolding res by (simp add: sort_by_score_desc_stable)
  from f raw fa c5 have c6: "\<exists>raw filtered.
            (api_hot env subreddit (norm_limit limit) = ApiOk raw
               \<or> api_top env subreddit time_filter (norm_limit limit) = ApiOk raw)
            \<and> filter_articles (clock env) t (map RedditArticle raw) min_score min_age
                = (filtered, t')
            \<and> (\<forall>s. filter (\<lambda>a. art_score a = s) res = filter (\<lambda>a. art_score a = s) filtered)"
    by (intro exI [of _ raw] exI [of _ filtered]) auto
  from c1 c2 c3 c4 c6 show ?thesis by blast
qed

theorem listing_filtered_and_sorted_witness:
  "get_hot_articles env_listing 0 ''videos'' (Some 10) (Some 10) (Some 1) =
     (Inr (map RedditArticle
         [submission_of ''e'' 90 10 None, submission_of ''b'' 50 0 None,
          submission_of ''d'' 50 3600 None]),
      [ApiHot ''videos'' (Some 10)], 4)
   \<and> filter (\<lambda>a. art_score a < 10)
        (map RedditArticle
           [submission_of ''e'' 90 10 None, submission_of ''b'' 50 0 None,
            submission_of ''d'' 50 3600 None]) = []
   \<and> filter (\<lambda>a. age (clock env_listing 4) a < 1)
        (map RedditArticle
           [submission_of ''e'' 90 10 None, submission_of ''b'' 50 0 None,
            submission_of ''d'' 50 3600 None]) = []"
proof -
  let ?R = "map RedditArticle
         [submission_of ''e'' 90 10 None, submission_of ''b'' 50 0 None,
          submission_of ''d'' 50 3600 None]"
  have run: "get_hot_articles env_listing 0 ''videos'' (Some 10) (Some 10) (Some 1) =
     (Inr ?R, [ApiHot ''videos'' (Some 10)], 4)"
    by (simp add: get_hot_articles_def listing_def norm_limit_def env_listing_def
          filter_articles_def art_score_submission_of age_submission_of
          sort_by_score_desc_def)
  have mono: "\<forall>i j. i \<le> j \<longrightarrow> clock env_listing i \<le> clock env_listing j"
    by (simp add: env_listing_def)
  note inst = listing_filtered_and_sorted [OF disjI1 [OF run]]
  from inst have "\<forall>a\<in>set ?R. \<not> art_score a < 10" by blast
  then have score: "filter (\<lambda>a. art_score a < 10) ?R = []"
    by (rule iffD2 [OF filter_empty_conv])
  from inst mono have "\<forall>a\<in>set ?R. \<forall>k. 4 \<le> k \<longrightarrow> \<not> age (clock env_listing k) a < 1"
    by blast
  then have "\<forall>a\<in>set ?R. \<not> age (clock env_listing 4) a < 1" by blast
  then have old: "filter (\<lambda>a. age (clock env_listing 4) a < 1) ?R = []"
    by (rule iffD2 [OF filter_empty_conv])
  from run score old show ?thesis by blast
qed

text \<open>
  Claim C6, as amended. For every \<^verbatim>\<open>time_filter\<close> that is not one of \<^verbatim>\<open>all\<close>, \<^verbatim>\<open>day\<close>,
  \<^verbatim>\<open>hour\<close>, \<^verbatim>\<open>month\<close>, \<^verbatim>\<open>week\<close>, \<^verbatim>\<open>year\<close>, and for all other arguments,
  \<^verbatim>\<open>get_top_articles\<close> raises \<^verbatim>\<open>RedditApiException\<close> before any network call and before any
  clock reading. The exception is the one in which the reader also wraps failures of the
  API; the source has no separate class for an invalid argument of the reader.
\<close>

theorem top_rejects_time_filter:
  assumes "time_filter \<notin> set VALID_TIME_FILTERS"
  shows "get_top_articles env t subreddit time_filter limit min_score min_age =
     (Inl (RedditApiException
        ''time_filter must be one of ('all', 'day', 'hour', 'month', 'week', 'year')''), [], t)"
  using assms by (simp add: get_top_articles_def)

theorem top_rejects_time_filter_witness:
  "''decade'' \<notin> set VALID_TIME_FILTERS \<and>
   get_top_articles env_listing 0 ''videos'' ''decade'' (Some 10) None None =
     (Inl (RedditApiException
        ''time_filter must be one of ('all', 'day', 'hour', 'month', 'week', 'year')''), [], 0)"
proof -
  have h: "''decade'' \<notin> set VALID_TIME_FILTERS" by (simp add: VALID_TIME_FILTERS_def)
  from top_rejects_time_filter [OF h] h show ?thesis by blast
qed

text \<open>
  Claim C6, as stated, fails: for the time filter \<^verbatim>\<open>decade\<close> the exception raised is a
  \<^verbatim>\<open>RedditApiException\<close>, whose kind is the API error, not the invalid argument.
\<close>

theorem top_time_filter_not_invalid_argument:
  "fst (get_top_articles env_listing 0 ''videos'' ''decade'' (Some 10) None None) =
     Inl (RedditApiException
        ''time_filter must be one of ('all', 'day', 'hour', 'month', 'week', 'year')'')
   \<and> kind_of (RedditApiException
        ''time_filter must be one of ('all', 'day', 'hour', 'month', 'week', 'year')'')
       \<noteq> InvalidArgument"
  by (simp add: get_top_articles_def VALID_TIME_FILTERS_def)

subsection \<open>Video references\<close>

lemma split_on_nonempty: "split_on c s \<noteq> []"
  by (induction s) (auto split: list.splits)

lemma split_on_append:
  "c \<notin> set a \<Longrightarrow> split_on c (a @ c # r) = a # split_on c r"
  by (induction a) (auto split: list.splits)

lemma split_on_single: "c \<notin> set a \<Longrightarrow> split_on c a = [a]"
  by (induction a) (auto split: list.splits)

lemma split_dash_path:
  assumes "CHR ''/'' \<notin> set vid"
  shows "split_on CHR ''/'' (CHR ''/'' # vid @ ''/DASH_240.mp4'') = [[], vid, ''DASH_240.mp4'']"
proof -
  have "split_on CHR ''/'' (vid @ CHR ''/'' # ''DASH_240.mp4'') = vid # split_on CHR ''/'' ''DASH_240.mp4''"
    using assms by (rule split_on_append)
  then show ?thesis by simp
qed

lemma split_dash_tail:
  assumes "CHR ''/'' \<notin> set vid"
  shows "split_on CHR ''/'' (vid @ ''/DASH_240.mp4'') = [vid, ''DASH_240.mp4'']"
proof -
  have "split_on CHR ''/'' (vid @ CHR ''/'' # ''DASH_240.mp4'') = vid # split_on CHR ''/'' ''DASH_240.mp4''"
    using assms by (rule split_on_append)
  then show ?thesis by simp
qed

lemma remove_unsafe_id:
  "\<forall>c\<in>set s. c \<notin> set UNSAFE_URL_BYTES_TO_REMOVE \<Longrightarrow> remove_unsafe s = s"
  by (simp add: remove_unsafe_def)

lemma clean_scheme_empty: "clean_scheme [] = []"
  by (simp add: clean_scheme_def remove_unsafe_def)

lemma clean_url_dash:
  assumes "\<forall>c\<in>set vid. c \<notin> set UNSAFE_URL_BYTES_TO_REMOVE"
  shows "clean_url (''https://v.redd.it/'' @ vid @ ''/DASH_240.mp4?source=x'')
           = ''https://v.redd.it/'' @ vid @ ''/DASH_240.mp4?source=x''"
proof -
  have "\<forall>c\<in>set (''https://v.redd.it/'' @ vid @ ''/DASH_240.mp4?source=x'').
          c \<notin> set UNSAFE_URL_BYTES_TO_REMOVE"
    using assms by (auto simp: UNSAFE_URL_BYTES_TO_REMOVE_def)
  from remove_unsafe_id [OF this] show ?thesis
    by (simp add: clean_url_def c0_control_or_space_def)
qed

lemma clean_url_dash_path:
  assumes "\<forall>c\<in>set vid. c \<notin> set UNSAFE_URL_BYTES_TO_REMOVE"
  shows "clean_url (CHR ''/'' # vid @ ''/DASH_240.mp4'') = CHR ''/'' # vid @ ''/DASH_240.mp4''"
proof -
  have "\<forall>c\<in>set (CHR ''/'' # vid @ ''/DASH_240.mp4''). c \<notin> set UNSAFE_URL_BYTES_TO_REMOVE"
    using assms by (auto simp: UNSAFE_URL_BYTES_TO_REMOVE_def)
  from remove_unsafe_id [OF this] show ?thesis
    by (simp add: clean_url_def c0_control_or_space_def)
qed

lemma urlsplit_dash:
  assumes "\<forall>c\<in>set vid. c \<notin> set ''/?#''"
    and "\<forall>c\<in>set vid. c \<notin> set UNSAFE_URL_BYTES_TO_REMOVE"
  shows "urlsplit chk (''https://v.redd.it/'' @ vid @ ''/DASH_240.mp4?source=x'') [] =
           Inr (''https'', ''v.redd.it'', CHR ''/'' # vid @ ''/DASH_240.mp4'', ''source=x'', [])"
proof -
  have nc: "\<not> needs_netloc_check ''v.redd.it''" by (simp add: needs_netloc_check_def)
  have s: "split_scheme [] (''https://v.redd.it/'' @ vid @ ''/DASH_240.mp4?source=x'')
             = (''https'', ''//v.redd.it/'' @ vid @ ''/DASH_240.mp4?source=x'')"
    by (simp add: split_scheme_def scheme_chars_def ascii_lowercase_def ascii_uppercase_def
          lower_char_def)
  have n: "split_netloc (''v.redd.it/'' @ vid @ ''/DASH_240.mp4?source=x'')
             = (''v.redd.it'', CHR ''/'' # vid @ ''/DASH_240.mp4?source=x'')"
    by (simp add: split_netloc_def)
  have nohash: "CHR ''#'' \<notin> set (CHR ''/'' # vid @ ''/DASH_240.mp4?source=x'')"
    using assms by auto
  have q: "CHR ''?'' \<in> set (CHR ''/'' # vid @ ''/DASH_240.mp4?source=x'')" by simp
  have v: "\<And>x. x \<in> set vid \<Longrightarrow> x \<noteq> CHR ''?''" using assms by auto
  have tw: "takeWhile (\<lambda>x. x \<noteq> CHR ''?'') (vid @ ''/DASH_240.mp4?source=x'')
              = vid @ ''/DASH_240.mp4''"
    using v by (simp add: takeWhile_append2)
  have dw: "dropWhile (\<lambda>x. x \<noteq> CHR ''?'') (vid @ ''/DASH_240.mp4?source=x'')
              = ''?source=x''"
    using v by (simp add: dropWhile_append2)
  have f: "split_first CHR ''?'' (CHR ''/'' # vid @ ''/DASH_240.mp4?source=x'')
             = (CHR ''/'' # vid @ ''/DASH_240.mp4'', ''source=x'')"
    by (simp add: split_first_def tw dw)
  show ?thesis
    unfolding urlsplit_def clean_url_dash [OF assms(2)] clean_scheme_empty Let_def s
    using n nohash q f nc by simp
qed

lemma splitext_dash:
  assumes "CHR ''/'' \<notin> set vid"
  shows "splitext_ext (CHR ''/'' # vid @ ''/DASH_240.mp4'') = ''.mp4''"
  unfolding splitext_ext_def split_dash_path [OF assms]
  by (simp add: Let_def)

lemma urlparse_dash_base:
  assumes "\<forall>c\<in>set vid. c \<notin> set ''/?#''" "vid \<noteq> []"
    and "\<forall>c\<in>set vid. c \<notin> set UNSAFE_URL_BYTES_TO_REMOVE"
  shows "urlparse chk (CHR ''/'' # vid @ ''/DASH_240.mp4'') [] =
           Inr ([], [], CHR ''/'' # vid @ ''/DASH_240.mp4'', [], [], [])"
proof -
  let ?p = "CHR ''/'' # vid @ ''/DASH_240.mp4''"
  obtain v vs where vid: "vid = v # vs" using assms(2) by (cases vid) auto
  have v: "v \<noteq> CHR ''/''" using assms(1) vid by auto
  have s: "split_scheme [] ?p = ([], ?p)"
    by (simp add: split_scheme_def ascii_lowercase_def ascii_uppercase_def)
  have t: "take 2 ?p \<noteq> ''//''" using v by (simp add: vid)
  have nohash: "CHR ''#'' \<notin> set ?p" and noq: "CHR ''?'' \<notin> set ?p" using assms(1) by auto
  have nc: "\<not> needs_netloc_check []" by (simp add: needs_netloc_check_def)
  have us: "urlsplit chk ?p [] = Inr ([], [], ?p, [], [])"
    unfolding urlsplit_def clean_url_dash_path [OF assms(3)] clean_scheme_empty Let_def s
    using t nohash noq nc by simp
  have slash: "CHR ''/'' \<notin> set vid" using assms(1) by auto
  have sp: "splitparams ?p = (?p, [])"
    unfolding splitparams_def split_dash_path [OF slash] by (simp add: Let_def)
  show ?thesis
    unfolding urlparse_def us by (simp add: sp)
qed

lemma urlparse_audio_name:
  "urlparse chk ''DASH_audio.mp4'' [] = Inr ([], [], ''DASH_audio.mp4'', [], [], [])"
  by (simp add: urlparse_def urlsplit_def split_scheme_def clean_url_def clean_scheme_def
        remove_unsafe_def UNSAFE_URL_BYTES_TO_REMOVE_def c0_control_or_space_def
        needs_netloc_check_def)

lemma urljoin_dash:
  assumes "\<forall>c\<in>set vid. c \<notin> set ''/?#''" "vid \<noteq> []" "vid \<noteq> ''.''" "vid \<noteq> ''..''"
    and "\<forall>c\<in>set vid. c \<notin> set UNSAFE_URL_BYTES_TO_REMOVE"
  shows "urljoin chk (CHR ''/'' # vid @ ''/DASH_240.mp4'') ''DASH_audio.mp4''
           = Inr (CHR ''/'' # vid @ ''/DASH_audio.mp4'')"
proof -
  have slash: "CHR ''/'' \<notin> set vid" using assms(1) by auto
  show ?thesis
    using assms(2,3,4)
    by (simp add: urljoin_def urlparse_dash_base [OF assms(1,2,5)] urlparse_audio_name
          split_dash_tail [OF slash] drop_empty_middle_def
          Let_def uses_relative_def uses_netloc_def urlunparse_def urlunsplit_def)
qed

lemma derive_audio_url_dash:
  assumes "\<forall>c\<in>set vid. c \<notin> set ''/?#''" "vid \<noteq> []" "vid \<noteq> ''.''" "vid \<noteq> ''..''"
    and "\<forall>c\<in>set vid. c \<notin> set UNSAFE_URL_BYTES_TO_REMOVE"
  shows "derive_audio_url chk (''https://v.redd.it/'' @ vid @ ''/DASH_240.mp4?source=x'')
           = Inr (''https://v.redd.it/'' @ vid @ ''/DASH_audio.mp4'')"
proof -
  have slash: "CHR ''/'' \<notin> set vid" using assms(1) by auto
  show ?thesis
    unfolding derive_audio_url_def urlsplit_dash [OF assms(1,5)]
    by (simp add: splitext_dash [OF slash] urljoin_dash [OF assms] urlunsplit_def Let_def)
qed

lemma derive_example:
  "derive_audio_url chk ''https://v.redd.it/abc123/DASH_240.mp4?source=x''
     = Inr ''https://v.redd.it/abc123/DASH_audio.mp4''"
  using derive_audio_url_dash [of "''abc123''" chk]
  by (simp add: UNSAFE_URL_BYTES_TO_REMOVE_def)

text \<open>
  Two URLs that show what the side conditions are for. An id that is a tab is removed by
  the library, which leaves an empty path segment, and the candidate is another URL. For
  a host in brackets the outcome is what the library's validation of the host decides.
\<close>

lemma derive_audio_url_tab:
  "derive_audio_url chk (''https://v.redd.it/'' @ [CHR 0x09] @ ''/DASH_240.mp4?source=x'')
     = Inr ''https://v.redd.it//DASH_240.mp4/DASH_audio.mp4''"
  by (simp add: derive_audio_url_def urlsplit_def split_scheme_def split_netloc_def
        split_first_def splitext_ext_def urljoin_def urlparse_def urlunparse_def
        urlunsplit_def splitparams_def drop_empty_middle_def uses_relative_def
        uses_netloc_def uses_params_def scheme_chars_def ascii_lowercase_def
        ascii_uppercase_def lower_char_def Let_def clean_url_def clean_scheme_def
        remove_unsafe_def UNSAFE_URL_BYTES_TO_REMOVE_def c0_control_or_space_def
        needs_netloc_check_def)

lemma derive_audio_url_bracketed_host:
  "derive_audio_url chk ''https://[abc]/x/DASH_240.mp4''
     = (case chk ''[abc]'' of Some e \<Rightarrow> Inl e | None \<Rightarrow> Inr ''https://[abc]/x/DASH_audio.mp4'')"
  by (simp add: derive_audio_url_def urlsplit_def split_scheme_def split_netloc_def
        split_first_def splitext_ext_def urljoin_def urlparse_def urlunparse_def
        urlunsplit_def splitparams_def drop_empty_middle_def uses_relative_def
        uses_netloc_def uses_params_def scheme_chars_def ascii_lowercase_def
        ascii_uppercase_def lower_char_def Let_def clean_url_def clean_scheme_def
        remove_unsafe_def UNSAFE_URL_BYTES_TO_REMOVE_def c0_control_or_space_def
        needs_netloc_check_def split: option.splits)

lemma get_video_native:
  assumes "art_media art = Some m" "media_reddit_video m = Some rv" "\<not> is_gif rv"
  shows "get_video env art =
     (case derive_audio_url (netloc_fault env) (fallback_url rv) of
        Inl e \<Rightarrow> (Inl e, [])
      | Inr audio_url \<Rightarrow>
          (case http_head env audio_url of
             Inl e \<Rightarrow> (Inl e, [HttpHead audio_url])
           | Inr status_code \<Rightarrow>
               (Inr (RedditVideoRef (art_title art) (art_author art) (fallback_url rv)
                       (if status_code \<noteq> 200 then None else Some audio_url)
                       (real_of_int (duration rv))),
                [HttpHead audio_url])))"
  using assms by (simp add: get_video_def has_video_def Let_def)

text \<open>
  Claim C5. First part: for a fallback URL \<^verbatim>\<open>https://v.redd.it/ID/DASH_240.mp4?source=x\<close>,
  where the video id \<^verbatim>\<open>ID\<close> is not empty, has none of the characters \<^verbatim>\<open>/\<close>, \<^verbatim>\<open>?\<close>, \<^verbatim>\<open>#\<close>,
  none of the characters that the URL library removes (tab, line feed, carriage return)
  and is not a dot segment, the candidate audio URL is
  \<^verbatim>\<open>https://v.redd.it/ID/DASH_audio.mp4\<close>: the last path segment is replaced, query and
  fragment are gone. This holds whatever the library's validation of hosts does, since
  it is not run for this host. Second part: for an article whose media descriptor has a
  \<^verbatim>\<open>reddit_video\<close> entry that is not a gif, whenever the URL library derives a candidate
  audio URL and the probe of that URL returns a status code other than 200, \<^verbatim>\<open>get_video\<close>
  returns a video reference whose audio URL is \<^verbatim>\<open>None\<close>, having made that one request; it
  does not raise.
\<close>

theorem audio_url_derivation_and_probe:
  "((\<forall>c\<in>set vid. c \<notin> set ''/?#'' \<and> c \<notin> set UNSAFE_URL_BYTES_TO_REMOVE)
      \<and> vid \<noteq> [] \<and> vid \<noteq> ''.'' \<and> vid \<noteq> ''..'' \<longrightarrow>
      derive_audio_url chk (''https://v.redd.it/'' @ vid @ ''/DASH_240.mp4?source=x'')
        = Inr (''https://v.redd.it/'' @ vid @ ''/DASH_audio.mp4''))
   \<and> (art_media art = Some m \<and> media_reddit_video m = Some rv \<and> \<not> is_gif rv
        \<and> derive_audio_url (netloc_fault env) (fallback_url rv) = Inr audio_url
        \<and> http_head env audio_url = Inr status_code \<and> status_code \<noteq> 200 \<longrightarrow>
      get_video env art =
        (Inr (RedditVideoRef (art_title art) (art_author art) (fallback_url rv) None
                (real_of_int (duration rv))),
         [HttpHead audio_url]))"
proof (intro conjI impI)
  assume "(\<forall>c\<in>set vid. c \<notin> set ''/?#'' \<and> c \<notin> set UNSAFE_URL_BYTES_TO_REMOVE)
      \<and> vid \<noteq> [] \<and> vid \<noteq> ''.'' \<and> vid \<noteq> ''..''"
  then have "\<forall>c\<in>set vid. c \<notin> set ''/?#''" "vid \<noteq> []" "vid \<noteq> ''.''" "vid \<noteq> ''..''"
    "\<forall>c\<in>set vid. c \<notin> set UNSAFE_URL_BYTES_TO_REMOVE"
    by blast+
  then show "derive_audio_url chk (''https://v.redd.it/'' @ vid @ ''/DASH_240.mp4?source=x'')
        = Inr (''https://v.redd.it/'' @ vid @ ''/DASH_audio.mp4'')"
    by (rule derive_audio_url_dash)
next
  assume a: "art_media art = Some m \<and> media_reddit_video m = Some rv \<and> \<not> is_gif rv
        \<and> derive_audio_url (netloc_fault env) (fallback_url rv) = Inr audio_url
        \<and> http_head env audio_url = Inr status_code \<and> status_code \<noteq> 200"
  then have "art_media art = Some m" "media_reddit_video m = Some rv" "\<not> is_gif rv"
    by simp_all
  from get_video_native [OF this] a show "get_video env art =
        (Inr (RedditVideoRef (art_title art) (art_author art) (fallback_url rv) None
                (real_of_int (duration rv))),
         [HttpHead audio_url])"
    by simp
qed

theorem audio_url_derivation_and_probe_witness:
  "derive_audio_url (netloc_fault env_listing) ''https://v.redd.it/abc123/DASH_240.mp4?source=x''
     = Inr ''https://v.redd.it/abc123/DASH_audio.mp4''
   \<and> get_video env_listing short_clip =
       (Inr (RedditVideoRef ''A post'' (Some ''alice'')
               ''https://v.redd.it/abc123/DASH_240.mp4?source=x'' None 10),
        [HttpHead ''https://v.redd.it/abc123/DASH_audio.mp4''])"
proof -
  let ?url = "''https://v.redd.it/abc123/DASH_240.mp4?source=x''"
  let ?rv = "\<lparr>is_gif = False, duration = 10, fallback_url = ?url\<rparr>"
  note inst = audio_url_derivation_and_probe [of "''abc123''" "netloc_fault env_listing"
      short_clip "native_media False 10 ?url" ?rv env_listing
      "''https://v.redd.it/abc123/DASH_audio.mp4''" 404]
  have v: "(\<forall>c\<in>set ''abc123''. c \<notin> set ''/?#'' \<and> c \<notin> set UNSAFE_URL_BYTES_TO_REMOVE)
             \<and> ''abc123'' \<noteq> [] \<and> ''abc123'' \<noteq> ''.'' \<and> ''abc123'' \<noteq> ''..''"
    by (simp add: UNSAFE_URL_BYTES_TO_REMOVE_def)
  from inst v have d: "derive_audio_url (netloc_fault env_listing)
          (''https://v.redd.it/'' @ ''abc123'' @ ''/DASH_240.mp4?source=x'')
        = Inr (''https://v.redd.it/'' @ ''abc123'' @ ''/DASH_audio.mp4'')" by blast
  then have d': "derive_audio_url (netloc_fault env_listing) ?url
        = Inr ''https://v.redd.it/abc123/DASH_audio.mp4''"
    by simp
  have h: "art_media short_clip = Some (native_media False 10 ?url)
       \<and> media_reddit_video (native_media False 10 ?url) = Some ?rv \<and> \<not> is_gif ?rv
       \<and> derive_audio_url (netloc_fault env_listing) (fallback_url ?rv)
           = Inr ''https://v.redd.it/abc123/DASH_audio.mp4''
       \<and> http_head env_listing ''https://v.redd.it/abc123/DASH_audio.mp4'' = Inr 404
       \<and> (404::int) \<noteq> 200"
    using d' by (simp add: short_clip_def RedditArticle_def submission_of_def native_media_def
                   env_listing_def)
  have t: "art_title short_clip = ''A post''" "art_author short_clip = Some ''alice''"
    by (simp_all add: short_clip_def RedditArticle_def submission_of_def)
  from inst h have "get_video env_listing short_clip =
           (Inr (RedditVideoRef (art_title short_clip) (art_author short_clip)
                   (fallback_url ?rv) None (real_of_int (duration ?rv))),
            [HttpHead ''https://v.redd.it/abc123/DASH_audio.mp4''])" by blast
  then have "get_video env_listing short_clip =
       (Inr (RedditVideoRef ''A post'' (Some ''alice'') ?url None 10),
        [HttpHead ''https://v.redd.it/abc123/DASH_audio.mp4''])"
    by (simp add: t)
  with d' show ?thesis by (rule conjI)
qed

text \<open>
  Claim C8. For every article, \<^verbatim>\<open>has_video\<close> and \<^verbatim>\<open>get_video\<close> agree: whenever
  \<^verbatim>\<open>has_video()\<close>, which is the call that \<^verbatim>\<open>get_video\<close> makes, returns false, \<^verbatim>\<open>get_video\<close>
  raises \<^verbatim>\<open>RedditVideoNotFound\<close>, before any network call.
\<close>

theorem get_video_not_found:
  assumes "\<not> has_video art None None True"
  shows "get_video env art = (Inl RedditVideoNotFound, [])"
  using assms by (simp add: get_video_def)

theorem get_video_not_found_witness:
  "\<not> has_video text_post None None True
   \<and> get_video env_listing text_post = (Inl RedditVideoNotFound, [])"
proof -
  have h: "\<not> has_video text_post None None True"
    by (simp add: has_video_def text_post_def RedditArticle_def submission_of_def)
  from get_video_not_found [OF h] h show ?thesis by blast
qed

subsection \<open>The \<^verbatim>\<open>child\<close> property\<close>

lemma wf_store_child:
  assumes "wf_store h" "a < length h" "o_child (h ! a) = Some c"
  shows "c < length h"
proof -
  from assms(1,2) have "case o_child (h ! a) of None \<Rightarrow> True | Some c \<Rightarrow> c < length h"
    by (simp add: wf_store_def list_all_length)
  with assms(3) show ?thesis by simp
qed

lemma chain_frame:
  assumes "wf_store h" "length h \<le> length h'" "\<forall>b<length h. h' ! b = h ! b"
    and "\<forall>a. r = Some a \<longrightarrow> a < length h"
  shows "chain h' n r = chain h n r"
  using assms(4)
proof (induction n arbitrary: r)
  case 0
  show ?case by simp
next
  case (Suc n)
  show ?case
  proof (cases r)
    case None
    then show ?thesis by simp
  next
    case (Some a)
    with Suc.prems have a: "a < length h" by simp
    with assms(2,3) have a': "a < length h'" and eq: "h' ! a = h ! a" by simp_all
    have "\<forall>c. o_child (h ! a) = Some c \<longrightarrow> c < length h"
      using wf_store_child [OF assms(1) a] by blast
    from Suc.IH [OF this] show ?thesis using Some a a' eq by simp
  qed
qed

text \<open>
  Claim C9. In a well-formed store, let the comment \<open>self\<close> have the stored child \<open>ca\<close>.
  Reading \<^verbatim>\<open>self.child\<close> returns a reference \<open>c1\<close> to a new object: it is distinct from
  \<open>ca\<close> and from every object that existed before, and it has the attribute values of
  \<open>ca\<close>. After any assignment \<^verbatim>\<open>c1.child = v\<close>, the stored child of \<open>self\<close> is still \<open>ca\<close>,
  the chain that starts at \<open>ca\<close> is what it was before the read, and a second read of
  \<^verbatim>\<open>self.child\<close> returns again a new object with the attribute values of \<open>ca\<close>, at the head
  of the same chain that the first read returned.
\<close>

theorem child_read_is_private_copy:
  assumes wf: "wf_store h" and self: "self < length h" and stored: "o_child (h ! self) = Some ca"
    and read1: "get_child h self = (r1, h1)"
  shows "\<exists>c1. r1 = Some c1 \<and> c1 \<noteq> ca \<and> length h \<le> c1 \<and> h1 ! c1 = h ! ca
       \<and> (\<forall>v r2 h3. get_child (set_child h1 c1 v) self = (r2, h3) \<longrightarrow>
            o_child (set_child h1 c1 v ! self) = Some ca
          \<and> (\<forall>n. chain (set_child h1 c1 v) n (Some ca) = chain h n (Some ca))
          \<and> (\<exists>c2. r2 = Some c2 \<and> c2 \<noteq> ca \<and> h3 ! c2 = h ! ca)
          \<and> (\<forall>n. chain h3 n r2 = chain h1 n r1))"
proof -
  have ca: "ca < length h" by (rule wf_store_child [OF wf self stored])
  from read1 have r1: "r1 = Some (length h)" and h1: "h1 = h @ [h ! ca]"
    using self stored ca by (simp_all add: get_child_def py_copy_def)
  have grand: "\<forall>c. o_child (h ! ca) = Some c \<longrightarrow> c < length h"
    using wf_store_child [OF wf ca] by blast
  have c1: "chain h1 n r1 = (case n of 0 \<Rightarrow> [] | Suc k \<Rightarrow> h ! ca # chain h k (o_child (h ! ca)))" for n
  proof (cases n)
    case 0
    then show ?thesis by simp
  next
    case (Suc k)
    have "chain h1 k (o_child (h ! ca)) = chain h k (o_child (h ! ca))"
      by (rule chain_frame [OF wf _ _ grand]) (simp_all add: h1 nth_append)
    then show ?thesis by (simp add: Suc r1 h1 nth_append)
  qed
  have after: "o_child (set_child h1 (length h) v ! self) = Some ca
          \<and> (\<forall>n. chain (set_child h1 (length h) v) n (Some ca) = chain h n (Some ca))
          \<and> (\<exists>c2. r2 = Some c2 \<and> c2 \<noteq> ca \<and> h3 ! c2 = h ! ca)
          \<and> (\<forall>n. chain h3 n r2 = chain h1 n r1)"
    if read2: "get_child (set_child h1 (length h) v) self = (r2, h3)" for v r2 h3
  proof -
    let ?h2 = "set_child h1 (length h) v"
    have len2: "length ?h2 = length h + 1" by (simp add: set_child_def h1)
    have same: "\<forall>b<length h. ?h2 ! b = h ! b"
      by (simp add: set_child_def h1 nth_append)
    have p1: "o_child (?h2 ! self) = Some ca" using same self stored by simp
    have p2: "chain ?h2 n (Some ca) = chain h n (Some ca)" for n
      by (rule chain_frame [OF wf _ same]) (simp_all add: len2 ca)
    from read2 have r2: "r2 = Some (length h + 1)" and h3: "h3 = ?h2 @ [h ! ca]"
      using self ca p1 same len2 by (simp_all add: get_child_def py_copy_def)
    have p3: "\<exists>c2. r2 = Some c2 \<and> c2 \<noteq> ca \<and> h3 ! c2 = h ! ca"
      using ca by (simp add: r2 h3 nth_append len2)
    have same3: "\<forall>b<length h. h3 ! b = h ! b"
      using same by (simp add: h3 nth_append len2)
    have p4: "chain h3 n r2 = chain h1 n r1" for n
    proof (cases n)
      case 0
      then show ?thesis by simp
    next
      case (Suc k)
      have "chain h3 k (o_child (h ! ca)) = chain h k (o_child (h ! ca))"
        by (rule chain_frame [OF wf _ same3 grand]) (simp add: h3 len2)
      then have "chain h3 n r2 = h ! ca # chain h k (o_child (h ! ca))"
        by (simp add: Suc r2 h3 nth_append len2)
      then show ?thesis by (simp add: c1 Suc)
    qed
    from p1 p2 p3 p4 show ?thesis by blast
  qed
  have "length h \<noteq> ca" using ca by simp
  moreover have "h1 ! length h = h ! ca" by (simp add: h1)
  ultimately show ?thesis using r1 after by (intro exI [of _ "length h"]) blast
qed

theorem child_read_is_private_copy_witness:
  "wf_store example_store
   \<and> get_child example_store 0 = (Some 3, example_store @ [example_store ! 1])
   \<and> o_child (set_child (example_store @ [example_store ! 1]) 3 None ! 0) = Some 1
   \<and> chain (set_child (example_store @ [example_store ! 1]) 3 None) 3 (Some 1)
       = chain example_store 3 (Some 1)"
proof -
  let ?h1 = "example_store @ [example_store ! 1]"
  have wf: "wf_store example_store" by (simp add: wf_store_def example_store_def)
  have self: "0 < length example_store" by (simp add: example_store_def)
  have stored: "o_child (example_store ! 0) = Some 1" by (simp add: example_store_def)
  have read1: "get_child example_store 0 = (Some 3, ?h1)"
    by (simp add: get_child_def py_copy_def example_store_def)
  from child_read_is_private_copy [OF wf self stored read1]
  have frame: "\<forall>v r2 h3. get_child (set_child ?h1 3 v) 0 = (r2, h3) \<longrightarrow>
            o_child (set_child ?h1 3 v ! 0) = Some 1
          \<and> (\<forall>n. chain (set_child ?h1 3 v) n (Some 1) = chain example_store n (Some 1))
          \<and> (\<exists>c2. r2 = Some c2 \<and> c2 \<noteq> 1 \<and> h3 ! c2 = example_store ! 1)
          \<and> (\<forall>n. chain h3 n r2 = chain ?h1 n (Some 3))"
    by blast
  have read2: "get_child (set_child ?h1 3 None) 0 =
      (fst (get_child (set_child ?h1 3 None) 0), snd (get_child (set_child ?h1 3 None) 0))"
    by simp
  from frame read2
  have "o_child (set_child ?h1 3 None ! 0) = Some 1"
    and "chain (set_child ?h1 3 None) 3 (Some 1) = chain example_store 3 (Some 1)"
    by blast+
  with wf read1 show ?thesis by blast
qed


end
